theory Spec2Isabelle
  imports Complex_Main "HOL-Library.Word" "HOL-Library.AList" "HOL-Library.Sublist"
begin

section \<open>Data model\<close>

text \<open>
  A decoded JSON value, as Go's \<open>interface{}\<close> holds it after \<open>json.Unmarshal\<close>: nil, bool,
  float64 (every JSON number that decodes is a finite real), string, slice, or
  \<open>map[string]interface{}\<close>. A Go map is written as an association list that is read with
  \<open>map_of\<close> and written with \<open>AList.update\<close>, so a key is bound at most once in every
  object the builder makes. The builder only ever stores strings and maps.
\<close>

datatype json =
    JNull
  | JBool bool
  | JNumber real
  | JString string
  | JArray "json list"
  | JObject "(string \<times> json) list"

type_synonym object = "(string \<times> json) list"

text \<open>
  One constructor per \<open>fmt.Errorf\<close> site of the package; a constructor that wraps another error
  (\<open>%w\<close>) carries it. Errors of the standard library that are wrapped are not kept.
\<close>

datatype error =
    EmptyPath
  | PathConflict string
  | SetNestedValueFailed string error
  | EndpointNil
  | BuildBodyFailed error
  | MarshalBodyFailed
  | RequiredParameterNotFound string
  | OperationNil
  | BuildVariablesFailed error
  | TokenLocationEmpty
  | ParseFailed
  | SegmentNotObject string nat
  | SegmentNotFound string
  | TokenNotString string
  | TokenEmpty string
  | CredentialsNil
  | UnsupportedAuthType string
  | UsernameOrPasswordNotFound
  | NoEndpointConfigured
  | InvalidEndpointConfiguration
  | ObtainTokenFailed error
  | BuildRESTFailed error
  | CreateHTTPRequestFailed
  | ExecuteRequestFailed
  | ReadResponseFailed
  | AuthEndpointStatus int string
  | ExtractTokenFailed error
  | BuildGraphQLFailed error
  | MarshalRequestFailed
  | CreateRequestFailed
  | GraphQLEndpointStatus int string
  | ApiKeyEmpty

text \<open>The structs of graphql\_client.go, with the fields the package reads.\<close>

record ContentAttributeType =
  Value :: string
  Required :: bool
  Location :: string

record ContentType =
  ContentType :: string
  Required :: bool

record EndpointType =
  Method :: string
  Path :: string
  Parameters :: "ContentAttributeType list"
  RequestBody :: "ContentType option"

record GqlOperationType =
  Name :: string
  OperationType :: string

record CredentialsPairType =
  Key :: string
  Value :: string

section \<open>request\_builder.go: the nested object builder\<close>

text \<open>
  \<open>strings.Split(s, sep)\<close> for a separator of one byte: the pieces of \<open>s\<close> between the
  separators, in order. The result is never empty: the empty string splits into one empty piece.
\<close>

fun strings_Split :: "string \<Rightarrow> char \<Rightarrow> string list" where
  "strings_Split [] sep = [[]]"
| "strings_Split (c # cs) sep =
     (if c = sep then [] # strings_Split cs sep
      else (case strings_Split cs sep of
              [] \<Rightarrow> [[c]]
            | p # ps \<Rightarrow> (c # p) # ps))"

text \<open>
  The body of \<open>setNestedValue\<close> on the split path. The first equation is the guard
  \<open>len(parts) == 0\<close>; the second is the assignment to the final key, after the loop;
  the third is one round of the loop, which descends into the map bound to \<open>key\<close>, makes a new
  map there when the key is unbound, and reports a conflict when it is bound to anything else.
  Go mutates the maps in place through \<open>current\<close>; every map is stored in exactly one slot, so
  the object is a tree and the model returns the updated tree. A conflict can only be met
  before the first new map is made, so an error leaves the object as it was.
\<close>

fun setNestedParts :: "object \<Rightarrow> string list \<Rightarrow> string \<Rightarrow> error + object" where
  "setNestedParts current [] val = Inl EmptyPath"
| "setNestedParts current [finalKey] val = Inr (AList.update finalKey (JString val) current)"
| "setNestedParts current (key # rest) val =
     (case map_of current key of
        Some existing \<Rightarrow>
          (case existing of
             JObject existingMap \<Rightarrow>
               (case setNestedParts existingMap rest val of
                  Inl err \<Rightarrow> Inl err
                | Inr m \<Rightarrow> Inr (AList.update key (JObject m) current))
           | _ \<Rightarrow> Inl (PathConflict key))
      | None \<Rightarrow>
          (case setNestedParts [] rest val of
             Inl err \<Rightarrow> Inl err
           | Inr newMap \<Rightarrow> Inr (AList.update key (JObject newMap) current)))"

definition setNestedValue :: "object \<Rightarrow> string \<Rightarrow> string \<Rightarrow> error + object" where
  "setNestedValue obj path val = setNestedParts obj (strings_Split path CHR ''.'') val"

text \<open>The loop of \<open>BuildNestedObject\<close> over the pairs, with \<open>result\<close> as its state.\<close>

fun BuildNestedLoop :: "object \<Rightarrow> CredentialsPairType list \<Rightarrow> error + object" where
  "BuildNestedLoop result [] = Inr result"
| "BuildNestedLoop result (pair # rest) =
     (case setNestedValue result (Key pair) (CredentialsPairType.Value pair) of
        Inl err \<Rightarrow> Inl (SetNestedValueFailed (Key pair) err)
      | Inr result' \<Rightarrow> BuildNestedLoop result' rest)"

definition BuildNestedObject :: "CredentialsPairType list \<Rightarrow> error + object" where
  "BuildNestedObject credentialData = BuildNestedLoop [] credentialData"

section \<open>token\_extractor.go\<close>

text \<open>
  The loop of \<open>ExtractTokenFromResponse\<close> over the path segments: \<open>current\<close> must be a map
  that holds the segment; \<open>i\<close> is the loop index, which only the error message reads.
\<close>

fun walkPath :: "json \<Rightarrow> string list \<Rightarrow> nat \<Rightarrow> error + json" where
  "walkPath current [] i = Inr current"
| "walkPath current (part # rest) i =
     (case current of
        JObject currentMap \<Rightarrow>
          (case map_of currentMap part of
             None \<Rightarrow> Inl (SegmentNotFound part)
           | Some next \<Rightarrow> walkPath next rest (Suc i))
      | _ \<Rightarrow> Inl (SegmentNotObject part i))"

text \<open>
  \<open>json.Unmarshal\<close> into an \<open>interface{}\<close> belongs to the standard library and is a parameter:
  it gives the decoded value, or \<open>None\<close> when the bytes are not valid JSON.
\<close>

definition ExtractTokenFromResponse ::
  "(string \<Rightarrow> json option) \<Rightarrow> string \<Rightarrow> string \<Rightarrow> error + string" where
  "ExtractTokenFromResponse json_Unmarshal responseBody tokenLocation =
     (if tokenLocation = [] then Inl TokenLocationEmpty
      else case json_Unmarshal responseBody of
        None \<Rightarrow> Inl ParseFailed
      | Some data \<Rightarrow>
          (case walkPath data (strings_Split tokenLocation CHR ''.'') 0 of
             Inl err \<Rightarrow> Inl err
           | Inr current \<Rightarrow>
               (case current of
                  JString token \<Rightarrow>
                    if token = [] then Inl (TokenEmpty tokenLocation) else Inr token
                | _ \<Rightarrow> Inl (TokenNotString tokenLocation))))"

text \<open>Whether a value passes the type assertion \<open>v.(map[string]interface{})\<close>.\<close>

fun isObject :: "json \<Rightarrow> bool" where
  "isObject (JObject m) = True"
| "isObject _ = False"

section \<open>token\_cache.go\<close>

text \<open>
  Unix seconds are \<open>int64\<close>: addition and subtraction wrap, comparisons are signed. The
  \<open>int\<close> arguments (\<open>ttl\<close>, \<open>refreshBuffer\<close>) are taken at the 64 bits they have on a 64-bit
  platform, where \<open>int64(x)\<close> changes nothing. The mutex is not modelled: the functions
  are the sequential behaviour of the methods. \<open>now\<close> is what \<open>time.Now().Unix()\<close> returns
  inside the call.
\<close>

type_synonym int64 = "64 word"

record CachedToken =
  Token :: string
  ExpiresAt :: "int64 option"
  RefreshAt :: "int64 option"

record TokenCache =
  tokens :: "string \<rightharpoonup> CachedToken"

definition NewTokenCache :: TokenCache where
  "NewTokenCache = \<lparr>tokens = Map.empty\<rparr>"

definition TokenCache_Get :: "TokenCache \<Rightarrow> int64 \<Rightarrow> string \<Rightarrow> int64 \<Rightarrow> string \<times> bool \<times> bool" where
  "TokenCache_Get c now serviceId refreshBuffer =
     (case tokens c serviceId of
        None \<Rightarrow> ('''', False, False)
      | Some cached \<Rightarrow>
          if (case ExpiresAt cached of None \<Rightarrow> False | Some expiresAt \<Rightarrow> expiresAt \<le>s now)
          then ('''', False, False)
          else if (case RefreshAt cached of None \<Rightarrow> False | Some refreshAt \<Rightarrow> refreshAt \<le>s now)
          then (CachedToken.Token cached, True, True)
          else (CachedToken.Token cached, False, True))"

text \<open>The entry that \<open>Set\<close> makes before it stores it.\<close>

definition newCachedToken :: "int64 \<Rightarrow> string \<Rightarrow> int64 option \<Rightarrow> int64 \<Rightarrow> CachedToken" where
  "newCachedToken now token ttl refreshBuffer =
     (case ttl of
        None \<Rightarrow> \<lparr>CachedToken.Token = token, ExpiresAt = None, RefreshAt = None\<rparr>
      | Some t \<Rightarrow>
          if 0 <s t then
            (let expiresAt = now + t;
                 refreshAt = now + t - refreshBuffer
             in \<lparr>CachedToken.Token = token, ExpiresAt = Some expiresAt,
                 RefreshAt = Some (if now <s refreshAt then refreshAt else now)\<rparr>)
          else \<lparr>CachedToken.Token = token, ExpiresAt = None, RefreshAt = None\<rparr>)"

definition TokenCache_Set ::
  "TokenCache \<Rightarrow> int64 \<Rightarrow> string \<Rightarrow> string \<Rightarrow> int64 option \<Rightarrow> int64 \<Rightarrow> TokenCache" where
  "TokenCache_Set c now serviceId token ttl refreshBuffer =
     c\<lparr>tokens := (tokens c)(serviceId \<mapsto> newCachedToken now token ttl refreshBuffer)\<rparr>"

definition TokenCache_Delete :: "TokenCache \<Rightarrow> string \<Rightarrow> TokenCache" where
  "TokenCache_Delete c serviceId = c\<lparr>tokens := (tokens c)(serviceId := None)\<rparr>"

definition TokenCache_Clear :: "TokenCache \<Rightarrow> TokenCache" where
  "TokenCache_Clear c = c\<lparr>tokens := Map.empty\<rparr>"

section \<open>request\_builder.go: the request assembler\<close>

text \<open>
  What the package takes from the standard library and from the network, as parameters:
  \<open>json.Marshal\<close> and \<open>json.Unmarshal\<close> (\<open>None\<close> for an error); the order in which
  \<open>range\<close> visits the entries of a map, which Go leaves open; whether \<open>http.NewRequest\<close>
  accepts a method and a URL; and \<open>client.Do\<close>, which gives no response when the transport
  fails. A response carries its status code and its body, \<open>None\<close> when reading it fails.
\<close>

record HttpRequest =
  ReqMethod :: string
  ReqURL :: string
  ReqBody :: "string option"
  ReqHeader :: "(string \<times> string) list"

record HttpResponse =
  StatusCode :: int
  Body :: "string option"

record Library =
  json_Marshal :: "json \<Rightarrow> string option"
  json_Unmarshal :: "string \<Rightarrow> json option"
  rangeOrder :: "(string \<times> string) list \<Rightarrow> (string \<times> string) list"
  http_NewRequest :: "string \<Rightarrow> string \<Rightarrow> bool"
  client_Do :: "HttpRequest \<Rightarrow> HttpResponse option"

text \<open>
  \<open>strings.ReplaceAll(s, old, new)\<close> for a pattern that is not empty: the matches are taken
  from the left and do not overlap. \<open>BuildRESTRequest\<close> always passes a pattern with its two
  braces; what Go does with an empty pattern is not modelled, and \<open>s\<close> is returned for it.
\<close>

function strings_ReplaceAll :: "string \<Rightarrow> string \<Rightarrow> string \<Rightarrow> string" where
  "strings_ReplaceAll [] old new = []"
| "strings_ReplaceAll (c # cs) old new =
     (if old \<noteq> [] \<and> take (length old) (c # cs) = old
      then new @ strings_ReplaceAll (drop (length old) (c # cs)) old new
      else c # strings_ReplaceAll cs old new)"
  by pat_completeness auto
termination
  by (relation "measure (\<lambda>(s, old, new). length s)") (auto simp: neq_Nil_conv)

fun findCredentialValue :: "CredentialsPairType list \<Rightarrow> string \<Rightarrow> string" where
  "findCredentialValue [] key = ''''"
| "findCredentialValue (pair # rest) key =
     (if Key pair = key then CredentialsPairType.Value pair else findCredentialValue rest key)"

text \<open>
  The loop of \<open>BuildRESTRequest\<close> over the declared parameters; its state is the header map,
  the map of query parameters and the URL.
\<close>

fun processParameters ::
  "CredentialsPairType list \<Rightarrow> ContentAttributeType list
    \<Rightarrow> (string \<times> string) list \<times> (string \<times> string) list \<times> string
    \<Rightarrow> error + ((string \<times> string) list \<times> (string \<times> string) list \<times> string)" where
  "processParameters credentialData [] (headers, queryParams, url) =
     Inr (headers, queryParams, url)"
| "processParameters credentialData (param # rest) (headers, queryParams, url) =
     (let val = findCredentialValue credentialData (ContentAttributeType.Value param)
      in if val = [] \<and> ContentAttributeType.Required param
         then Inl (RequiredParameterNotFound (ContentAttributeType.Value param))
         else processParameters credentialData rest
           (if Location param = ''header''
              then (AList.update (ContentAttributeType.Value param) val headers, queryParams, url)
            else if Location param = ''query''
              then (headers, AList.update (ContentAttributeType.Value param) val queryParams, url)
            else if Location param = ''path''
              then (headers, queryParams,
                    strings_ReplaceAll url (''{'' @ ContentAttributeType.Value param @ ''}'') val)
            else (headers, queryParams, url)))"

text \<open>The loop that appends the query parameters, with its flag \<open>first\<close>.\<close>

fun appendQuery :: "string \<Rightarrow> bool \<Rightarrow> (string \<times> string) list \<Rightarrow> string" where
  "appendQuery url first [] = url"
| "appendQuery url first ((key, val) # rest) =
     appendQuery ((if \<not> first then url @ ''&'' else url) @ key @ ''='' @ val) False rest"

text \<open>
  The block of \<open>BuildRESTRequest\<close> that builds the request body when the endpoint declares
  a required one: it gives the body (\<open>None\<close> for the nil slice) and the header map so far.
\<close>

definition buildRequestBody ::
  "Library \<Rightarrow> EndpointType \<Rightarrow> CredentialsPairType list
    \<Rightarrow> error + (string option \<times> (string \<times> string) list)" where
  "buildRequestBody lib ep credentialData =
     (case RequestBody ep of
        None \<Rightarrow> Inr (None, [])
      | Some rb \<Rightarrow>
          if ContentType.Required rb then
            (case BuildNestedObject credentialData of
               Inl err \<Rightarrow> Inl (BuildBodyFailed err)
             | Inr bodyObj \<Rightarrow>
                 (case json_Marshal lib (JObject bodyObj) of
                    None \<Rightarrow> Inl MarshalBodyFailed
                  | Some bodyData \<Rightarrow>
                      Inr (Some bodyData, AList.update ''Content-Type'' (ContentType rb) [])))
          else Inr (None, []))"

definition BuildRESTRequest ::
  "Library \<Rightarrow> EndpointType option \<Rightarrow> CredentialsPairType list \<Rightarrow> string
    \<Rightarrow> error + (string \<times> string \<times> string option \<times> (string \<times> string) list)" where
  "BuildRESTRequest lib endpoint credentialData baseURL =
     (case endpoint of
        None \<Rightarrow> Inl EndpointNil
      | Some ep \<Rightarrow>
          (case buildRequestBody lib ep credentialData of
             Inl err \<Rightarrow> Inl err
           | Inr (body, headers0) \<Rightarrow>
               (case processParameters credentialData (Parameters ep)
                       (headers0, [], baseURL @ Path ep) of
                  Inl err \<Rightarrow> Inl err
                | Inr (headers, queryParams, url) \<Rightarrow>
                    Inr (Method ep,
                         (if length queryParams > 0
                          then appendQuery (url @ ''?'') True (rangeOrder lib queryParams)
                          else url),
                         body, headers))))"

definition BuildGraphQLRequest ::
  "GqlOperationType option \<Rightarrow> CredentialsPairType list \<Rightarrow> error + (string \<times> object)" where
  "BuildGraphQLRequest operation credentialData =
     (case operation of
        None \<Rightarrow> Inl OperationNil
      | Some op \<Rightarrow>
          (case BuildNestedObject credentialData of
             Inl err \<Rightarrow> Inl (BuildVariablesFailed err)
           | Inr variables \<Rightarrow> Inr (OperationType op @ '' '' @ Name op, variables)))"

section \<open>auth\_handler.go\<close>

record EndpointNode =
  EndpointType :: "EndpointType option"
  GqlOperationType :: "GqlOperationType option"

record EndpointEdge =
  Node :: EndpointNode

record EndpointConnection =
  Edges :: "EndpointEdge list"

record CredentialsType =
  AuthType :: string
  EndpointType :: string
  CredentialData :: "CredentialsPairType list"
  Token :: "string option"
  TokenLocation :: string
  TokenTtl :: "int64 option"
  ApiKey :: string
  EndpointData :: "EndpointConnection option"

record GlobalConfig =
  CacheEnabled :: bool
  TokenRefreshBuffer :: int64

text \<open>
  The handler: its HTTP client (with the rest of the library), the cache it points to, and
  the configuration. The functions that may write the cache return it with their result.
\<close>

record AuthHandler =
  client :: Library
  cache :: TokenCache
  config :: GlobalConfig

text \<open>
  \<open>base64.StdEncoding.EncodeToString\<close>: three bytes give four characters of the standard
  alphabet, and a last group of one or two bytes is padded with \<open>=\<close>.
\<close>

definition encodeStd :: string where
  "encodeStd = ''ABCDEFGHIJKLMNOPQRSTUVWXYZabcdefghijklmnopqrstuvwxyz0123456789+/''"

fun EncodeToString :: "string \<Rightarrow> string" where
  "EncodeToString [] = []"
| "EncodeToString [a] =
     (let x = (of_char a :: nat)
      in [encodeStd ! (x div 4), encodeStd ! ((x mod 4) * 16), CHR ''='', CHR ''=''])"
| "EncodeToString [a, b] =
     (let x = (of_char a :: nat); y = (of_char b :: nat)
      in [encodeStd ! (x div 4), encodeStd ! ((x mod 4) * 16 + y div 16),
          encodeStd ! ((y mod 16) * 4), CHR ''=''])"
| "EncodeToString (a # b # c # rest) =
     (let x = (of_char a :: nat); y = (of_char b :: nat); z = (of_char c :: nat)
      in [encodeStd ! (x div 4), encodeStd ! ((x mod 4) * 16 + y div 16),
          encodeStd ! ((y mod 16) * 4 + z div 64), encodeStd ! (z mod 64)]
         @ EncodeToString rest)"

text \<open>The loop of \<open>handleBasicAuth\<close>, with \<open>username\<close> and \<open>password\<close> as its state.\<close>

fun basicAuthLoop :: "string \<times> string \<Rightarrow> CredentialsPairType list \<Rightarrow> string \<times> string" where
  "basicAuthLoop (username, password) [] = (username, password)"
| "basicAuthLoop (username, password) (pair # rest) =
     basicAuthLoop
       (if Key pair = ''username'' \<or> Key pair = ''user''
        then CredentialsPairType.Value pair else username,
        if Key pair = ''password'' \<or> Key pair = ''pass''
        then CredentialsPairType.Value pair else password)
       rest"

definition handleBasicAuth :: "CredentialsType \<Rightarrow> error + string" where
  "handleBasicAuth credentials =
     (case basicAuthLoop ('''', '''') (CredentialData credentials) of
        (username, password) \<Rightarrow>
          if username = [] \<or> password = [] then Inl UsernameOrPasswordNotFound
          else Inr (''Basic '' @ EncodeToString (username @ '':'' @ password)))"

definition handleAPITokenAuth :: "CredentialsType \<Rightarrow> error + string" where
  "handleAPITokenAuth credentials =
     (if ApiKey credentials = [] then Inl ApiKeyEmpty else Inr (ApiKey credentials))"

definition callRESTAuthEndpoint ::
  "Library \<Rightarrow> EndpointType \<Rightarrow> CredentialsType \<Rightarrow> error + string" where
  "callRESTAuthEndpoint lib endpoint credentials =
     (case BuildRESTRequest lib (Some endpoint) (CredentialData credentials) '''' of
        Inl err \<Rightarrow> Inl (BuildRESTFailed err)
      | Inr (method, url, body, headers) \<Rightarrow>
          if \<not> http_NewRequest lib method url then Inl CreateHTTPRequestFailed
          else
            (case client_Do lib
                    \<lparr>ReqMethod = method, ReqURL = url, ReqBody = body, ReqHeader = headers\<rparr> of
               None \<Rightarrow> Inl ExecuteRequestFailed
             | Some resp \<Rightarrow>
                 (case Body resp of
                    None \<Rightarrow> Inl ReadResponseFailed
                  | Some respBody \<Rightarrow>
                      if StatusCode resp \<noteq> 200 \<and> StatusCode resp \<noteq> 201
                      then Inl (AuthEndpointStatus (StatusCode resp) respBody)
                      else
                        (case ExtractTokenFromResponse (json_Unmarshal lib) respBody
                                (TokenLocation credentials) of
                           Inl err \<Rightarrow> Inl (ExtractTokenFailed err)
                         | Inr token \<Rightarrow> Inr token))))"

text \<open>
  The request body of the GraphQL call is the struct \<open>GraphQLRequest\<close>; its field
  \<open>variables\<close> is tagged \<open>omitempty\<close> and left out when the map is empty. The URL is the
  empty string, as in the source.
\<close>

definition callGraphQLAuthEndpoint ::
  "Library \<Rightarrow> GqlOperationType \<Rightarrow> CredentialsType \<Rightarrow> error + string" where
  "callGraphQLAuthEndpoint lib operation credentials =
     (case BuildGraphQLRequest (Some operation) (CredentialData credentials) of
        Inl err \<Rightarrow> Inl (BuildGraphQLFailed err)
      | Inr (query, variables) \<Rightarrow>
          (case json_Marshal lib
                  (JObject ((''query'', JString query)
                     # (if variables = [] then [] else [(''variables'', JObject variables)]))) of
             None \<Rightarrow> Inl MarshalRequestFailed
           | Some reqData \<Rightarrow>
               if \<not> http_NewRequest lib ''POST'' '''' then Inl CreateRequestFailed
               else
                 (case client_Do lib
                         \<lparr>ReqMethod = ''POST'', ReqURL = '''', ReqBody = Some reqData,
                          ReqHeader = [(''Content-Type'', ''application/json'')]\<rparr> of
                    None \<Rightarrow> Inl ExecuteRequestFailed
                  | Some resp \<Rightarrow>
                      (case Body resp of
                         None \<Rightarrow> Inl ReadResponseFailed
                       | Some respBody \<Rightarrow>
                           if StatusCode resp \<noteq> 200
                           then Inl (GraphQLEndpointStatus (StatusCode resp) respBody)
                           else
                             (case ExtractTokenFromResponse (json_Unmarshal lib) respBody
                                     (TokenLocation credentials) of
                                Inl err \<Rightarrow> Inl (ExtractTokenFailed err)
                              | Inr token \<Rightarrow> Inr token)))))"

text \<open>
  The part of \<open>handleLoginAuth\<close> after the cache and the pre-existing token have been
  tried: the choice of the endpoint and the call to it. An error of the call is wrapped;
  a missing endpoint and an invalid endpoint configuration are returned as they are.
\<close>

definition fetchToken :: "Library \<Rightarrow> CredentialsType \<Rightarrow> error + string" where
  "fetchToken lib credentials =
     (case EndpointData credentials of
        None \<Rightarrow> Inl NoEndpointConfigured
      | Some endpointData \<Rightarrow>
          (case Edges endpointData of
             [] \<Rightarrow> Inl NoEndpointConfigured
           | edge # _ \<Rightarrow>
               (case (CredentialsType.EndpointType credentials = ''REST'',
                      EndpointNode.EndpointType (Node edge),
                      CredentialsType.EndpointType credentials = ''GRAPHQL'',
                      EndpointNode.GqlOperationType (Node edge)) of
                  (True, Some endpoint, _, _) \<Rightarrow>
                    (case callRESTAuthEndpoint lib endpoint credentials of
                       Inl err \<Rightarrow> Inl (ObtainTokenFailed err)
                     | Inr token \<Rightarrow> Inr token)
                | (_, _, True, Some operation) \<Rightarrow>
                    (case callGraphQLAuthEndpoint lib operation credentials of
                       Inl err \<Rightarrow> Inl (ObtainTokenFailed err)
                     | Inr token \<Rightarrow> Inr token)
                | _ \<Rightarrow> Inl InvalidEndpointConfiguration)))"

text \<open>
  \<open>handleLoginAuth\<close>. \<open>tGet\<close> and \<open>tSet\<close> are the clock readings of the \<open>Get\<close> and of the
  \<open>Set\<close> it may make. The result comes with the cache as the call leaves it.
\<close>

definition handleLoginAuth ::
  "AuthHandler \<Rightarrow> int64 \<Rightarrow> int64 \<Rightarrow> string \<Rightarrow> CredentialsType \<Rightarrow> (error + string) \<times> TokenCache" where
  "handleLoginAuth h tGet tSet serviceId credentials =
     (case (if CacheEnabled (config h)
            then TokenCache_Get (cache h) tGet serviceId (TokenRefreshBuffer (config h))
            else ('''', False, False)) of
        (token, needsRefresh, exists) \<Rightarrow>
          if CacheEnabled (config h) \<and> exists \<and> \<not> needsRefresh then (Inr token, cache h)
          else
            (case (case CredentialsType.Token credentials of
                     None \<Rightarrow> None
                   | Some t \<Rightarrow> if t \<noteq> [] then Some t else None) of
               Some t \<Rightarrow>
                 (Inr t,
                  if CacheEnabled (config h)
                  then TokenCache_Set (cache h) tSet serviceId t (TokenTtl credentials)
                         (TokenRefreshBuffer (config h))
                  else cache h)
             | None \<Rightarrow>
                 (case fetchToken (client h) credentials of
                    Inl err \<Rightarrow> (Inl err, cache h)
                  | Inr token' \<Rightarrow>
                      (Inr token',
                       if CacheEnabled (config h)
                       then TokenCache_Set (cache h) tSet serviceId token' (TokenTtl credentials)
                              (TokenRefreshBuffer (config h))
                       else cache h))))"

definition GetAuthToken ::
  "AuthHandler \<Rightarrow> int64 \<Rightarrow> int64 \<Rightarrow> string \<Rightarrow> CredentialsType option
    \<Rightarrow> (error + string) \<times> TokenCache" where
  "GetAuthToken h tGet tSet serviceId credentials =
     (case credentials of
        None \<Rightarrow> (Inl CredentialsNil, cache h)
      | Some creds \<Rightarrow>
          if AuthType creds = ''BASIC'' then (handleBasicAuth creds, cache h)
          else if AuthType creds = ''LOGIN'' then handleLoginAuth h tGet tSet serviceId creds
          else if AuthType creds = ''APITOKEN'' then (handleAPITokenAuth creds, cache h)
          else if AuthType creds = ''NONE'' then (Inr '''', cache h)
          else (Inl (UnsupportedAuthType (AuthType creds)), cache h))"

section \<open>The path relation of the specification\<close>

text \<open>
  This relation is written from the specification of the extractor, not from its code:
  a path leads from a document to a value when "at each hop the current value [is] an
  object" that holds the next segment. The empty path leads from a value to itself.
\<close>

inductive leadsTo :: "json \<Rightarrow> string list \<Rightarrow> json \<Rightarrow> bool" where
  leadsTo_here: "leadsTo v [] v"
| leadsTo_hop: "map_of m s = Some v \<Longrightarrow> leadsTo v ss w \<Longrightarrow> leadsTo (JObject m) (s # ss) w"

text \<open>Whether a value passes the type assertion \<open>v.(string)\<close>.\<close>

fun isString :: "json \<Rightarrow> bool" where
  "isString (JString s) = True"
| "isString _ = False"

text \<open>
  The text of a query string, written from its format and not from the loop that appends
  it: the entries as \<open>name=value\<close>, in the order given, with \<open>&\<close> between them.
\<close>

fun queryString :: "(string \<times> string) list \<Rightarrow> string" where
  "queryString [] = []"
| "queryString [(k, v)] = k @ ''='' @ v"
| "queryString ((k, v) # rest) = k @ ''='' @ v @ ''&'' @ queryString rest"

section \<open>Theorems\<close>

subsection \<open>Splitting\<close>

lemma strings_Split_nonempty: "strings_Split s sep \<noteq> []"
  by (induction s) (auto split: list.splits)

lemma strings_Split_empty: "strings_Split [] sep = [[]]"
  by simp

subsection \<open>The empty key\<close>

text \<open>
  C9. The claim is that a pair with the empty key makes \<open>BuildNestedObject\<close> fail. The guard
  \<open>len(parts) == 0\<close> of \<open>setNestedValue\<close> is there for it, but splitting the empty string gives
  one empty segment, so the guard never fires: the pair with key \<open>""\<close> and value \<open>"v"\<close> builds
  the object that binds the empty key to \<open>"v"\<close>.
\<close>

theorem BuildNestedObject_empty_key_accepted:
  "BuildNestedObject [\<lparr>Key = '''', CredentialsPairType.Value = ''v''\<rparr>] = Inr [('''', JString ''v'')]"
  by (simp add: BuildNestedObject_def setNestedValue_def)

subsection \<open>Signed 64-bit arithmetic without overflow\<close>

lemma sint_range64: "- (2 ^ 63) \<le> sint (a :: int64) \<and> sint a < 2 ^ 63"
  using sint_ge [of a] sint_lt [of a] by simp

lemma sint_add_exact:
  fixes a b :: int64
  assumes "- (2 ^ 63) \<le> sint a + sint b" and "sint a + sint b < 2 ^ 63"
  shows "sint (a + b) = sint a + sint b"
  using assms by (simp add: sint_word_ariths signed_take_bit_int_eq_self)

lemma sint_sub_exact:
  fixes a b :: int64
  assumes "- (2 ^ 63) \<le> sint a - sint b" and "sint a - sint b < 2 ^ 63"
  shows "sint (a - b) = sint a - sint b"
  using assms by (simp add: sint_word_ariths signed_take_bit_int_eq_self)

subsection \<open>The token cache\<close>

text \<open>
  C3. After \<open>Set(id, "t1", ttl=20, buffer=10)\<close> at the clock reading \<open>t0\<close>, a \<open>Get\<close> at \<open>t0\<close>
  returns \<open>("t1", false, true)\<close>, a \<open>Get\<close> 11 seconds later returns \<open>("t1", true, true)\<close>, and a
  \<open>Get\<close> 21 seconds later returns \<open>exists = false\<close>. The three clock readings of the scenario
  are \<open>int64\<close> values, so \<open>t0 + 21\<close> is one: that is the hypothesis.
\<close>

theorem TokenCache_ttl20_buffer10:
  fixes t0 :: int64
  assumes "sint t0 + 21 < 2 ^ 63"
  shows "TokenCache_Get (TokenCache_Set c t0 serviceId ''t1'' (Some 20) 10) t0 serviceId 10
           = (''t1'', False, True)
       \<and> TokenCache_Get (TokenCache_Set c t0 serviceId ''t1'' (Some 20) 10) (t0 + 11) serviceId 10
           = (''t1'', True, True)
       \<and> TokenCache_Get (TokenCache_Set c t0 serviceId ''t1'' (Some 20) 10) (t0 + 21) serviceId 10
           = ('''', False, False)"
proof -
  have r: "- (2 ^ 63) \<le> sint t0"
    using sint_range64 [of t0] by simp
  have s20: "sint (t0 + 20) = sint t0 + 20"
    using assms r by (simp add: sint_add_exact)
  have s10: "sint (t0 + 10) = sint t0 + 10"
    using assms r by (simp add: sint_add_exact)
  have s11: "sint (t0 + 11) = sint t0 + 11"
    using assms r by (simp add: sint_add_exact)
  have s21: "sint (t0 + 21) = sint t0 + 21"
    using assms r by (simp add: sint_add_exact)
  have e: "t0 + 20 - 10 = t0 + 10"
    by simp
  have g0: "TokenCache_Get (TokenCache_Set c t0 serviceId ''t1'' (Some 20) 10) t0 serviceId 10
              = (''t1'', False, True)"
    by (simp add: TokenCache_Set_def TokenCache_Get_def newCachedToken_def e
        word_sle_eq word_sless_alt s20 s10)
  have g11: "TokenCache_Get (TokenCache_Set c t0 serviceId ''t1'' (Some 20) 10) (t0 + 11) serviceId 10
              = (''t1'', True, True)"
    by (simp add: TokenCache_Set_def TokenCache_Get_def newCachedToken_def e
        word_sle_eq word_sless_alt s20 s10 s11)
  have g21: "TokenCache_Get (TokenCache_Set c t0 serviceId ''t1'' (Some 20) 10) (t0 + 21) serviceId 10
              = ('''', False, False)"
    by (simp add: TokenCache_Set_def TokenCache_Get_def newCachedToken_def e
        word_sle_eq word_sless_alt s20 s10 s21)
  from g0 g11 g21 show ?thesis by simp
qed

theorem TokenCache_ttl20_buffer10_witness:
  "sint (1700000000 :: int64) + 21 < 2 ^ 63
   \<and> TokenCache_Get (TokenCache_Set NewTokenCache 1700000000 ''svc'' ''t1'' (Some 20) 10)
        1700000000 ''svc'' 10 = (''t1'', False, True)
   \<and> TokenCache_Get (TokenCache_Set NewTokenCache 1700000000 ''svc'' ''t1'' (Some 20) 10)
        1700000011 ''svc'' 10 = (''t1'', True, True)
   \<and> TokenCache_Get (TokenCache_Set NewTokenCache 1700000000 ''svc'' ''t1'' (Some 20) 10)
        1700000021 ''svc'' 10 = ('''', False, False)"
proof -
  have h: "sint (1700000000 :: int64) + 21 < 2 ^ 63"
    by simp
  show ?thesis
    using h TokenCache_ttl20_buffer10 [OF h, of NewTokenCache "''svc''"] by simp
qed

text \<open>
  C6, as the claim states it: every entry that \<open>Set\<close> makes with a positive ttl and a buffer
  that is not negative has \<open>RefreshAt \<le> ExpiresAt\<close>. It fails when \<open>now + ttl\<close> passes the
  largest \<open>int64\<close>: with \<open>ttl = 9223372036854775807\<close> and \<open>buffer = 0\<close> at the clock reading
  \<open>1700000000\<close> the sum wraps to a negative expiry, the refresh time falls back to \<open>now\<close>, and
  the entry has \<open>RefreshAt > ExpiresAt\<close>.
\<close>

theorem TokenCache_Set_refresh_after_expiry:
  "0 <s (9223372036854775807 :: int64) \<and> 0 \<le>s (0 :: int64)
   \<and> tokens (TokenCache_Set NewTokenCache 1700000000 ''svc'' ''t'' (Some 9223372036854775807) 0) ''svc''
       = Some \<lparr>CachedToken.Token = ''t'', ExpiresAt = Some (- 9223372035154775809), RefreshAt = Some 1700000000\<rparr>
   \<and> \<not> (1700000000 :: int64) \<le>s - 9223372035154775809"
  by (simp add: TokenCache_Set_def newCachedToken_def NewTokenCache_def word_sle_eq word_sless_alt)

text \<open>
  C6, amended: when the clock reading is not negative and \<open>now + ttl\<close> is an \<open>int64\<close>, the entry
  that \<open>Set\<close> stores for a positive ttl and a buffer that is not negative has both timestamps,
  \<open>RefreshAt \<le> ExpiresAt\<close>, and \<open>RefreshAt = now\<close> whenever \<open>ttl \<le> buffer\<close>.
\<close>

theorem TokenCache_Set_refresh_le_expiry:
  fixes now ttl refreshBuffer :: int64
  assumes "0 <s ttl" and "0 \<le>s refreshBuffer" and "0 \<le>s now"
      and "sint now + sint ttl < 2 ^ 63"
  shows "\<exists>e r. tokens (TokenCache_Set c now serviceId token (Some ttl) refreshBuffer) serviceId
                 = Some \<lparr>CachedToken.Token = token, ExpiresAt = Some e, RefreshAt = Some r\<rparr>
              \<and> r \<le>s e
              \<and> (ttl \<le>s refreshBuffer \<longrightarrow> r = now)"
proof -
  have p: "0 < sint ttl" "0 \<le> sint refreshBuffer" "0 \<le> sint now"
    using assms by (simp_all add: word_sle_eq word_sless_alt)
  have e: "sint (now + ttl) = sint now + sint ttl"
    using assms p by (simp add: sint_add_exact)
  have b: "sint refreshBuffer < 2 ^ 63"
    using sint_range64 [of refreshBuffer] by simp
  have r: "sint (now + ttl - refreshBuffer) = sint now + sint ttl - sint refreshBuffer"
    using assms p b e by (simp add: sint_sub_exact)
  show ?thesis
    using p e r
    by (auto simp add: TokenCache_Set_def newCachedToken_def Let_def word_sle_eq word_sless_alt assms)
qed

theorem TokenCache_Set_refresh_le_expiry_witness:
  "0 <s (5 :: int64) \<and> 0 \<le>s (10 :: int64) \<and> 0 \<le>s (1700000000 :: int64)
   \<and> sint (1700000000 :: int64) + sint (5 :: int64) < 2 ^ 63
   \<and> (5 :: int64) \<le>s 10
   \<and> tokens (TokenCache_Set NewTokenCache 1700000000 ''svc'' ''t'' (Some 5) 10) ''svc''
       = Some \<lparr>CachedToken.Token = ''t'', ExpiresAt = Some 1700000005, RefreshAt = Some 1700000000\<rparr>
   \<and> (1700000000 :: int64) \<le>s 1700000005"
proof -
  have h: "0 <s (5 :: int64)" "0 \<le>s (10 :: int64)" "0 \<le>s (1700000000 :: int64)"
    "sint (1700000000 :: int64) + sint (5 :: int64) < 2 ^ 63"
    by (simp_all add: word_sle_eq word_sless_alt)
  from TokenCache_Set_refresh_le_expiry [OF h, of NewTokenCache "''svc''" "''t''"]
  obtain e r where
    "tokens (TokenCache_Set NewTokenCache 1700000000 ''svc'' ''t'' (Some 5) 10) ''svc''
       = Some \<lparr>CachedToken.Token = ''t'', ExpiresAt = Some e, RefreshAt = Some r\<rparr>" and "r \<le>s e"
    by blast
  then show ?thesis
    by (simp add: TokenCache_Set_def newCachedToken_def NewTokenCache_def word_sle_eq word_sless_alt)
qed

text \<open>
  C8. After \<open>Set(id, "t2", ttl=nil, buffer=10)\<close> the stored entry has no expiry and no refresh
  timestamp, and a \<open>Get\<close> at any clock reading, with any buffer, returns
  \<open>("t2", false, true)\<close>.
\<close>

theorem TokenCache_nil_ttl_never_expires:
  "tokens (TokenCache_Set c t0 serviceId ''t2'' None 10) serviceId
     = Some \<lparr>CachedToken.Token = ''t2'', ExpiresAt = None, RefreshAt = None\<rparr>
   \<and> TokenCache_Get (TokenCache_Set c t0 serviceId ''t2'' None 10) t serviceId refreshBuffer
     = (''t2'', False, True)"
  by (simp add: TokenCache_Set_def TokenCache_Get_def newCachedToken_def)

subsection \<open>The nested object builder\<close>

lemma walkPath_cong_head:
  "parts \<noteq> [] \<Longrightarrow> map_of o1 (hd parts) = map_of o2 (hd parts) \<Longrightarrow>
   walkPath (JObject o1) parts i = walkPath (JObject o2) parts i"
  by (cases parts) auto

text \<open>Into an empty map every path can be set.\<close>

lemma setNestedParts_fresh:
  "parts \<noteq> [] \<Longrightarrow> \<exists>m. setNestedParts [] parts v = Inr m"
proof (induction parts)
  case Nil
  then show ?case by simp
next
  case (Cons k ks)
  show ?case
  proof (cases ks)
    case Nil
    then show ?thesis by simp
  next
    case (Cons k' ks')
    with Cons.IH obtain m where "setNestedParts [] ks v = Inr m" by auto
    with Cons show ?thesis by simp
  qed
qed

text \<open>
  What a successful \<open>setNestedValue\<close> leaves behind: the path leads to the new string, and
  every top-level key other than the first segment is bound as before.
\<close>

lemma setNestedParts_bound:
  "setNestedParts cur parts v = Inr obj' \<Longrightarrow>
     walkPath (JObject obj') parts i = Inr (JString v)
   \<and> (\<forall>k. k \<noteq> hd parts \<longrightarrow> map_of obj' k = map_of cur k)"
proof (induction cur parts v arbitrary: obj' i rule: setNestedParts.induct)
  case (1 current val)
  then show ?case by simp
next
  case (2 current finalKey val)
  then show ?case by (auto simp: update_conv')
next
  case (3 current key r rs val)
  show ?case
  proof (cases "map_of current key")
    case None
    with "3.prems" obtain m where m: "setNestedParts [] (r # rs) val = Inr m"
      and o: "obj' = AList.update key (JObject m) current"
      by (auto split: sum.splits)
    from "3.IH"(1) [OF None m, of "Suc i"] o show ?thesis
      by (auto simp: update_conv')
  next
    case (Some existing)
    with "3.prems" obtain em m where e: "existing = JObject em"
      and m: "setNestedParts em (r # rs) val = Inr m"
      and o: "obj' = AList.update key (JObject m) current"
      by (auto split: sum.splits json.splits)
    from "3.IH"(2) [OF Some e m, of "Suc i"] o show ?thesis
      by (auto simp: update_conv')
  qed
qed

lemma setNestedParts_unbound_head:
  assumes "parts \<noteq> []" and "map_of cur (hd parts) = None"
  shows "\<exists>obj'. setNestedParts cur parts v = Inr obj'"
proof (cases parts)
  case Nil
  with assms show ?thesis by simp
next
  case (Cons k ks)
  show ?thesis
  proof (cases ks)
    case Nil
    with Cons show ?thesis by simp
  next
    case (Cons k' ks')
    then obtain m where "setNestedParts [] ks v = Inr m"
      using setNestedParts_fresh [of ks v] by auto
    with Cons \<open>parts = k # ks\<close> assms show ?thesis by simp
  qed
qed

text \<open>The only errors of \<open>setNestedValue\<close>.\<close>

lemma setNestedParts_errors:
  "setNestedParts cur parts v = Inl e \<Longrightarrow> e = EmptyPath \<and> parts = [] \<or> (\<exists>k. e = PathConflict k)"
  by (induction cur parts v rule: setNestedParts.induct)
     (auto split: option.splits json.splits sum.splits)

text \<open>
  \<open>setNestedValue\<close> reports a conflict exactly when a proper, non-empty prefix of the path
  leads to a value that is not a map.
\<close>

lemma setNestedParts_conflict_iff:
  "parts \<noteq> [] \<Longrightarrow>
   (\<exists>k. setNestedParts cur parts v = Inl (PathConflict k))
     = (\<exists>n val. 0 < n \<and> n < length parts
          \<and> walkPath (JObject cur) (take n parts) i = Inr val \<and> \<not> isObject val)"
proof (induction cur parts v arbitrary: i rule: setNestedParts.induct)
  case (1 current val)
  then show ?case by simp
next
  case (2 current finalKey val)
  then show ?case by simp
next
  case (3 current key r rs val)
  let ?rest = "r # rs"
  have shift: "(\<exists>n val. 0 < n \<and> n < length (key # ?rest)
          \<and> walkPath (JObject current) (take n (key # ?rest)) i = Inr val \<and> \<not> isObject val)
     = (\<exists>n val. n < length ?rest
          \<and> walkPath (JObject current) (key # take n ?rest) i = Inr val \<and> \<not> isObject val)"
    (is "?L = ?R")
  proof
    assume ?L
    then obtain n val where "0 < n" "n < length (key # ?rest)"
      "walkPath (JObject current) (take n (key # ?rest)) i = Inr val" "\<not> isObject val" by blast
    then have "n - 1 < length ?rest
       \<and> walkPath (JObject current) (key # take (n - 1) ?rest) i = Inr val \<and> \<not> isObject val"
      by (cases n) auto
    then show ?R by blast
  next
    assume ?R
    then obtain n val where "n < length ?rest"
      "walkPath (JObject current) (key # take n ?rest) i = Inr val" "\<not> isObject val" by blast
    then have "0 < Suc n \<and> Suc n < length (key # ?rest)
       \<and> walkPath (JObject current) (take (Suc n) (key # ?rest)) i = Inr val \<and> \<not> isObject val"
      by simp
    then show ?L by blast
  qed
  show ?case
  proof (cases "map_of current key")
    case None
    obtain m where "setNestedParts [] ?rest val = Inr m"
      using setNestedParts_fresh [of ?rest val] by auto
    with None have "\<not> (\<exists>k. setNestedParts current (key # ?rest) val = Inl (PathConflict k))"
      by simp
    moreover from None have "\<not> ?R" by simp
    ultimately show ?thesis using shift by simp
  next
    case (Some existing)
    show ?thesis
    proof (cases "isObject existing")
      case False
      with Some have "setNestedParts current (key # ?rest) val = Inl (PathConflict key)"
        by (cases existing) auto
      moreover have "?R"
        using Some False by (intro exI [of _ 0] exI [of _ existing]) simp
      ultimately show ?thesis using shift by blast
    next
      case True
      then obtain em where e: "existing = JObject em" by (cases existing) auto
      have l: "(\<exists>k. setNestedParts current (key # ?rest) val = Inl (PathConflict k))
                = (\<exists>k. setNestedParts em ?rest val = Inl (PathConflict k))"
        using Some e by (auto split: sum.splits)
      have ih: "(\<exists>k. setNestedParts em ?rest val = Inl (PathConflict k))
                = (\<exists>n val. 0 < n \<and> n < length ?rest
                     \<and> walkPath (JObject em) (take n ?rest) (Suc i) = Inr val \<and> \<not> isObject val)"
        using "3.IH"(2) [OF Some e, of "Suc i"] by simp
      have r: "?R = (\<exists>n val. 0 < n \<and> n < length ?rest
                     \<and> walkPath (JObject em) (take n ?rest) (Suc i) = Inr val \<and> \<not> isObject val)"
        (is "_ = ?Q")
      proof
        assume ?R
        then obtain n val where n: "n < length ?rest"
          "walkPath (JObject current) (key # take n ?rest) i = Inr val" "\<not> isObject val" by blast
        with Some e have w: "walkPath (JObject em) (take n ?rest) (Suc i) = Inr val" by simp
        with n have "0 < n" by (cases n) auto
        with n w show ?Q by blast
      next
        assume ?Q
        then obtain n val where n: "0 < n" "n < length ?rest"
          "walkPath (JObject em) (take n ?rest) (Suc i) = Inr val" "\<not> isObject val" by blast
        with Some e have "walkPath (JObject current) (key # take n ?rest) i = Inr val" by simp
        with n show ?R by blast
      qed
      from l ih r shift show ?thesis by simp
    qed
  qed
qed

lemma setNestedParts_no_conflict:
  assumes "parts \<noteq> []"
      and "\<not> (\<exists>n val. 0 < n \<and> n < length parts
          \<and> walkPath (JObject cur) (take n parts) i = Inr val \<and> \<not> isObject val)"
  shows "\<exists>obj'. setNestedParts cur parts v = Inr obj'"
proof (cases "setNestedParts cur parts v")
  case (Inl e)
  with setNestedParts_errors [OF Inl] assms(1) obtain k where
    "setNestedParts cur parts v = Inl (PathConflict k)" by auto
  with setNestedParts_conflict_iff [OF assms(1), of cur v i] assms(2) show ?thesis by blast
next
  case (Inr obj')
  then show ?thesis by blast
qed

lemma BuildNestedLoop_append:
  "BuildNestedLoop r (xs @ ys)
     = (case BuildNestedLoop r xs of Inl e \<Rightarrow> Inl e | Inr r' \<Rightarrow> BuildNestedLoop r' ys)"
  by (induction xs arbitrary: r) (auto split: sum.splits)

text \<open>
  C1, as the claim states it: a conflict is reported in whatever order the conflicting pairs
  come, and no binding is ever overwritten. With the pairs \<open>"a.b"\<rightarrow>"y"\<close> then \<open>"a"\<rightarrow>"x"\<close> no
  error is returned, and the map that \<open>a\<close> was bound to is replaced by the string \<open>"x"\<close>.
\<close>

theorem BuildNestedObject_overwrites_in_reverse_order:
  "BuildNestedObject [\<lparr>Key = ''a.b'', CredentialsPairType.Value = ''y''\<rparr>,
                      \<lparr>Key = ''a'', CredentialsPairType.Value = ''x''\<rparr>]
     = Inr [(''a'', JString ''x'')]"
  by (simp add: BuildNestedObject_def setNestedValue_def)

lemma walkPath_empty_object: "q \<noteq> [] \<Longrightarrow> walkPath (JObject []) q i \<noteq> Inr x"
  by (cases q) auto

text \<open>
  The frame of a successful \<open>setNestedValue\<close>: a path that parts from the path that was set
  (neither is a prefix of the other) leads to the same value as before, and to none if it
  led to none before.
\<close>

lemma setNestedParts_frame:
  "setNestedParts cur parts v = Inr obj' \<Longrightarrow> \<not> prefix parts q \<Longrightarrow> \<not> prefix q parts \<Longrightarrow>
   (walkPath (JObject obj') q i = Inr x) = (walkPath (JObject cur) q i = Inr x)"
proof (induction cur parts v arbitrary: obj' q i rule: setNestedParts.induct)
  case (1 current val)
  then show ?case by simp
next
  case (2 current finalKey val)
  from "2.prems"(3) obtain q0 qs where q: "q = q0 # qs" by (cases q) auto
  with "2.prems"(2) have "q0 \<noteq> finalKey" by auto
  with "2.prems"(1) q show ?case by (auto simp: update_conv')
next
  case (3 current key r rs val)
  from "3.prems"(3) obtain q0 qs where q: "q = q0 # qs" by (cases q) auto
  show ?case
  proof (cases "q0 = key")
    case False
    from "3.prems"(1) obtain m where "obj' = AList.update key (JObject m) current"
      by (auto split: option.splits json.splits sum.splits)
    with False q show ?thesis by (simp add: update_conv')
  next
    case True
    with q "3.prems"(2,3) have np: "\<not> prefix (r # rs) qs" "\<not> prefix qs (r # rs)" by auto
    show ?thesis
    proof (cases "map_of current key")
      case None
      with "3.prems"(1) obtain m where m: "setNestedParts [] (r # rs) val = Inr m"
        and o: "obj' = AList.update key (JObject m) current"
        by (auto split: sum.splits)
      from np have "qs \<noteq> []" by auto
      with "3.IH"(1) [OF None m np, of "Suc i"] walkPath_empty_object [of qs "Suc i" x]
      have "walkPath (JObject m) qs (Suc i) \<noteq> Inr x" by simp
      with None o q True show ?thesis by (simp add: update_conv')
    next
      case (Some existing)
      with "3.prems"(1) obtain em m where e: "existing = JObject em"
        and m: "setNestedParts em (r # rs) val = Inr m"
        and o: "obj' = AList.update key (JObject m) current"
        by (auto split: sum.splits json.splits)
      from "3.IH"(2) [OF Some e m np, of "Suc i"] Some e o q True show ?thesis
        by (simp add: update_conv')
    qed
  qed
qed

text \<open>
  C1, amended. Let \<open>obj\<close> be the object built from the pairs before \<open>p\<close>, and let the key of
  \<open>p\<close> not be empty. If a proper, non-empty prefix of the segments of \<open>p\<close>'s key leads in
  \<open>obj\<close> to a value that is not an object, \<open>BuildNestedObject\<close> fails with a path conflict at
  \<open>p\<close>, whatever pairs follow. Otherwise \<open>p\<close> is accepted: its path leads to its value
  afterwards, whatever was bound at that very path before, and nothing else is overwritten:
  every path that parts from the path of \<open>p\<close> (neither is a prefix of the other) leads to
  exactly the value it led to before, and to none if it led to none.
\<close>

theorem BuildNestedObject_path_conflict:
  assumes "BuildNestedObject pre = Inr obj" and "Key p \<noteq> []"
  shows "if (\<exists>n val. 0 < n \<and> n < length (strings_Split (Key p) CHR ''.'')
              \<and> walkPath (JObject obj) (take n (strings_Split (Key p) CHR ''.'')) 0 = Inr val
              \<and> \<not> isObject val)
         then (\<exists>k. BuildNestedObject (pre @ p # post)
                      = Inl (SetNestedValueFailed (Key p) (PathConflict k)))
         else (\<exists>obj'. BuildNestedObject (pre @ [p]) = Inr obj'
                  \<and> walkPath (JObject obj') (strings_Split (Key p) CHR ''.'') 0
                      = Inr (JString (CredentialsPairType.Value p))
                  \<and> (\<forall>q x. \<not> prefix (strings_Split (Key p) CHR ''.'') q
                           \<and> \<not> prefix q (strings_Split (Key p) CHR ''.'')
                        \<longrightarrow> (walkPath (JObject obj') q 0 = Inr x)
                              = (walkPath (JObject obj) q 0 = Inr x)))"
proof -
  let ?parts = "strings_Split (Key p) CHR ''.''"
  have ne: "?parts \<noteq> []" by (rule strings_Split_nonempty)
  show ?thesis
  proof (cases "\<exists>n val. 0 < n \<and> n < length ?parts
              \<and> walkPath (JObject obj) (take n ?parts) 0 = Inr val \<and> \<not> isObject val")
    case True
    with setNestedParts_conflict_iff [OF ne, of obj "CredentialsPairType.Value p" 0]
    obtain k where "setNestedParts obj ?parts (CredentialsPairType.Value p) = Inl (PathConflict k)"
      by blast
    with assms(1) have "BuildNestedObject (pre @ p # post)
                      = Inl (SetNestedValueFailed (Key p) (PathConflict k))"
      by (simp add: BuildNestedObject_def BuildNestedLoop_append setNestedValue_def)
    with True show ?thesis by auto
  next
    case False
    from setNestedParts_no_conflict [OF ne False] obtain obj' where
      s: "setNestedParts obj ?parts (CredentialsPairType.Value p) = Inr obj'" by blast
    from setNestedParts_bound [OF s, of 0] have
      w: "walkPath (JObject obj') ?parts 0 = Inr (JString (CredentialsPairType.Value p))" by simp
    from s assms(1) have b: "BuildNestedObject (pre @ [p]) = Inr obj'"
      by (simp add: BuildNestedObject_def BuildNestedLoop_append setNestedValue_def)
    have f: "\<forall>q x. \<not> prefix ?parts q \<and> \<not> prefix q ?parts
                \<longrightarrow> (walkPath (JObject obj') q 0 = Inr x) = (walkPath (JObject obj) q 0 = Inr x)"
      using setNestedParts_frame [OF s] by blast
    from w b f have "\<exists>obj'. BuildNestedObject (pre @ [p]) = Inr obj'
                  \<and> walkPath (JObject obj') ?parts 0 = Inr (JString (CredentialsPairType.Value p))
                  \<and> (\<forall>q x. \<not> prefix ?parts q \<and> \<not> prefix q ?parts
                        \<longrightarrow> (walkPath (JObject obj') q 0 = Inr x)
                              = (walkPath (JObject obj) q 0 = Inr x))"
      by blast
    then show ?thesis by (simp only: if_not_P [OF False])
  qed
qed

theorem BuildNestedObject_path_conflict_witness:
  "BuildNestedObject [\<lparr>Key = ''a'', CredentialsPairType.Value = ''x''\<rparr>] = Inr [(''a'', JString ''x'')]
   \<and> ''a.b'' \<noteq> ''''
   \<and> walkPath (JObject [(''a'', JString ''x'')]) (take 1 (strings_Split ''a.b'' CHR ''.'')) 0
       = Inr (JString ''x'')
   \<and> \<not> isObject (JString ''x'')
   \<and> BuildNestedObject [\<lparr>Key = ''a'', CredentialsPairType.Value = ''x''\<rparr>,
                        \<lparr>Key = ''a.b'', CredentialsPairType.Value = ''y''\<rparr>]
       = Inl (SetNestedValueFailed ''a.b'' (PathConflict ''a''))
   \<and> BuildNestedObject [\<lparr>Key = ''user.name'', CredentialsPairType.Value = ''john''\<rparr>]
       = Inr [(''user'', JObject [(''name'', JString ''john'')])]
   \<and> ''user.pass'' \<noteq> ''''
   \<and> BuildNestedObject [\<lparr>Key = ''user.name'', CredentialsPairType.Value = ''john''\<rparr>,
                        \<lparr>Key = ''user.pass'', CredentialsPairType.Value = ''secret''\<rparr>]
       = Inr [(''user'', JObject [(''name'', JString ''john''), (''pass'', JString ''secret'')])]
   \<and> \<not> prefix (strings_Split ''user.pass'' CHR ''.'') [''user'', ''name'']
   \<and> \<not> prefix [''user'', ''name''] (strings_Split ''user.pass'' CHR ''.'')
   \<and> walkPath (JObject [(''user'', JObject [(''name'', JString ''john''), (''pass'', JString ''secret'')])])
         [''user'', ''name''] 0 = Inr (JString ''john'')
   \<and> walkPath (JObject [(''user'', JObject [(''name'', JString ''john'')])])
         [''user'', ''name''] 0 = Inr (JString ''john'')"
proof -
  have h: "BuildNestedObject [\<lparr>Key = ''a'', CredentialsPairType.Value = ''x''\<rparr>]
             = Inr [(''a'', JString ''x'')]"
    by (simp add: BuildNestedObject_def setNestedValue_def)
  have k: "Key \<lparr>Key = ''a.b'', CredentialsPairType.Value = ''y''\<rparr> \<noteq> []" by simp
  have c: "\<exists>n val. 0 < n
      \<and> n < length (strings_Split (Key \<lparr>Key = ''a.b'', CredentialsPairType.Value = ''y''\<rparr>) CHR ''.'')
      \<and> walkPath (JObject [(''a'', JString ''x'')])
           (take n (strings_Split (Key \<lparr>Key = ''a.b'', CredentialsPairType.Value = ''y''\<rparr>) CHR ''.'')) 0
          = Inr val
      \<and> \<not> isObject val"
    by (intro exI [of _ 1] exI [of _ "JString ''x''"]) simp
  from BuildNestedObject_path_conflict [OF h k, of "[]"] c
  have conflict: "\<exists>k. BuildNestedObject [\<lparr>Key = ''a'', CredentialsPairType.Value = ''x''\<rparr>,
                        \<lparr>Key = ''a.b'', CredentialsPairType.Value = ''y''\<rparr>]
       = Inl (SetNestedValueFailed ''a.b'' (PathConflict k))"
    by auto
  have e: "BuildNestedObject [\<lparr>Key = ''a'', CredentialsPairType.Value = ''x''\<rparr>,
                        \<lparr>Key = ''a.b'', CredentialsPairType.Value = ''y''\<rparr>]
       = Inl (SetNestedValueFailed ''a.b'' (PathConflict ''a''))"
    by (simp add: BuildNestedObject_def setNestedValue_def)
  have h2: "BuildNestedObject [\<lparr>Key = ''user.name'', CredentialsPairType.Value = ''john''\<rparr>]
       = Inr [(''user'', JObject [(''name'', JString ''john'')])]"
    by (simp add: BuildNestedObject_def setNestedValue_def)
  have k2: "Key \<lparr>Key = ''user.pass'', CredentialsPairType.Value = ''secret''\<rparr> \<noteq> []" by simp
  have b2: "BuildNestedObject [\<lparr>Key = ''user.name'', CredentialsPairType.Value = ''john''\<rparr>,
                        \<lparr>Key = ''user.pass'', CredentialsPairType.Value = ''secret''\<rparr>]
       = Inr [(''user'', JObject [(''name'', JString ''john''), (''pass'', JString ''secret'')])]"
    by (simp add: BuildNestedObject_def setNestedValue_def)
  note accepted = BuildNestedObject_path_conflict [OF h2 k2, of "[]"]
  from conflict e h h2 b2 accepted show ?thesis
    by simp
qed

text \<open>The loop on pairs whose first segments are distinct and unbound in the object so far.\<close>

lemma BuildNestedLoop_disjoint:
  assumes "distinct (map (\<lambda>p. hd (strings_Split (Key p) CHR ''.'')) cd)"
      and "\<forall>p\<in>set cd. map_of r (hd (strings_Split (Key p) CHR ''.'')) = None"
  shows "\<exists>obj. BuildNestedLoop r cd = Inr obj
          \<and> (\<forall>p\<in>set cd. walkPath (JObject obj) (strings_Split (Key p) CHR ''.'') i
                 = Inr (JString (CredentialsPairType.Value p)))
          \<and> (\<forall>k. k \<notin> (\<lambda>p. hd (strings_Split (Key p) CHR ''.'')) ` set cd
                 \<longrightarrow> map_of obj k = map_of r k)"
  using assms
proof (induction cd arbitrary: r)
  case Nil
  then show ?case by simp
next
  case (Cons p cd)
  let ?head = "\<lambda>p. hd (strings_Split (Key p) CHR ''.'')"
  let ?parts = "strings_Split (Key p) CHR ''.''"
  have ne: "?parts \<noteq> []" by (rule strings_Split_nonempty)
  from Cons.prems have un: "map_of r (hd ?parts) = None" by simp
  from setNestedParts_unbound_head [OF ne un] obtain r' where
    r': "setNestedParts r ?parts (CredentialsPairType.Value p) = Inr r'" by blast
  from setNestedParts_bound [OF r', of i] have
    w: "walkPath (JObject r') ?parts i = Inr (JString (CredentialsPairType.Value p))"
    and f: "\<And>k. k \<noteq> hd ?parts \<Longrightarrow> map_of r' k = map_of r k" by auto
  from Cons.prems have d: "distinct (map ?head cd)" and nh: "?head p \<notin> ?head ` set cd" by auto
  have "\<forall>q\<in>set cd. map_of r' (?head q) = None"
  proof
    fix q assume q: "q \<in> set cd"
    then have "?head q \<in> ?head ` set cd" by (rule imageI)
    with nh have "?head q \<noteq> ?head p" by auto
    with f Cons.prems q show "map_of r' (?head q) = None" by simp
  qed
  from Cons.IH [OF d this] obtain obj where
    l: "BuildNestedLoop r' cd = Inr obj"
    and a: "\<forall>q\<in>set cd. walkPath (JObject obj) (strings_Split (Key q) CHR ''.'') i
                 = Inr (JString (CredentialsPairType.Value q))"
    and k: "\<And>k. k \<notin> ?head ` set cd \<Longrightarrow> map_of obj k = map_of r' k" by blast
  have "walkPath (JObject obj) ?parts i = walkPath (JObject r') ?parts i"
    by (rule walkPath_cong_head [OF ne]) (simp add: k [OF nh])
  with w have wp: "walkPath (JObject obj) ?parts i = Inr (JString (CredentialsPairType.Value p))"
    by simp
  have "\<forall>k. k \<notin> ?head ` set (p # cd) \<longrightarrow> map_of obj k = map_of r k"
    using k f by auto
  with l a wp r' show ?case by (simp add: setNestedValue_def)
qed

text \<open>
  C4. When the first segments of the keys are pairwise distinct, \<open>BuildNestedObject\<close> succeeds,
  and in the object it returns the dotted path of every pair leads to that pair's value.
  The path is looked up the way \<open>ExtractTokenFromResponse\<close> walks one.
\<close>

theorem BuildNestedObject_round_trip:
  assumes "distinct (map (\<lambda>p. hd (strings_Split (Key p) CHR ''.'')) credentialData)"
  shows "\<exists>obj. BuildNestedObject credentialData = Inr obj
          \<and> (\<forall>p\<in>set credentialData.
                walkPath (JObject obj) (strings_Split (Key p) CHR ''.'') 0
                  = Inr (JString (CredentialsPairType.Value p)))"
  using BuildNestedLoop_disjoint [OF assms, of "[]" 0] by (auto simp: BuildNestedObject_def)

theorem BuildNestedObject_round_trip_witness:
  "distinct (map (\<lambda>p. hd (strings_Split (Key p) CHR ''.''))
      [\<lparr>Key = ''user.name'', CredentialsPairType.Value = ''john''\<rparr>,
       \<lparr>Key = ''pass'', CredentialsPairType.Value = ''secret''\<rparr>])
   \<and> BuildNestedObject
        [\<lparr>Key = ''user.name'', CredentialsPairType.Value = ''john''\<rparr>,
         \<lparr>Key = ''pass'', CredentialsPairType.Value = ''secret''\<rparr>]
       = Inr [(''user'', JObject [(''name'', JString ''john'')]), (''pass'', JString ''secret'')]
   \<and> walkPath (JObject [(''user'', JObject [(''name'', JString ''john'')]), (''pass'', JString ''secret'')])
        (strings_Split ''user.name'' CHR ''.'') 0 = Inr (JString ''john'')
   \<and> walkPath (JObject [(''user'', JObject [(''name'', JString ''john'')]), (''pass'', JString ''secret'')])
        (strings_Split ''pass'' CHR ''.'') 0 = Inr (JString ''secret'')"
proof -
  have h: "distinct (map (\<lambda>p. hd (strings_Split (Key p) CHR ''.''))
      [\<lparr>Key = ''user.name'', CredentialsPairType.Value = ''john''\<rparr>,
       \<lparr>Key = ''pass'', CredentialsPairType.Value = ''secret''\<rparr>])"
    by simp
  have b: "BuildNestedObject
        [\<lparr>Key = ''user.name'', CredentialsPairType.Value = ''john''\<rparr>,
         \<lparr>Key = ''pass'', CredentialsPairType.Value = ''secret''\<rparr>]
       = Inr [(''user'', JObject [(''name'', JString ''john'')]), (''pass'', JString ''secret'')]"
    by (simp add: BuildNestedObject_def setNestedValue_def)
  from BuildNestedObject_round_trip [OF h] b show ?thesis
    using h by simp
qed

subsection \<open>The token extractor\<close>

inductive_simps leadsTo_Nil: "leadsTo d [] w"
inductive_simps leadsTo_Cons: "leadsTo d (s # ss) w"

text \<open>The walk succeeds exactly along the path relation.\<close>

lemma walkPath_Inr_iff: "(walkPath d ps i = Inr v) = leadsTo d ps v"
  by (induction ps arbitrary: d i)
     (auto simp: leadsTo_Nil leadsTo_Cons split: json.splits option.splits)

text \<open>
  The walk fails exactly when it meets a segment that the object reached so far does not
  hold, or a value that is not an object with a segment still to go; the error names the
  segment and, for the second, the index of the hop.
\<close>

lemma walkPath_Inl_iff:
  "(walkPath d ps i = Inl e) =
     ((\<exists>pre s post m. ps = pre @ s # post \<and> leadsTo d pre (JObject m) \<and> map_of m s = None
          \<and> e = SegmentNotFound s)
    \<or> (\<exists>pre s post v. ps = pre @ s # post \<and> leadsTo d pre v \<and> \<not> isObject v
          \<and> e = SegmentNotObject s (i + length pre)))"
proof (induction ps arbitrary: d i)
  case Nil
  then show ?case by simp
next
  case (Cons p rest)
  show ?case
  proof (cases "isObject d")
    case False
    then have w: "walkPath d (p # rest) i = Inl (SegmentNotObject p i)"
      by (cases d) auto
    from False have no: "\<And>xs v. xs \<noteq> [] \<Longrightarrow> \<not> leadsTo d xs v"
      by (cases d) (auto simp: neq_Nil_conv leadsTo_Cons)
    show ?thesis
    proof
      assume "walkPath d (p # rest) i = Inl e"
      with w have "e = SegmentNotObject p i" by simp
      with False have "p # rest = [] @ p # rest \<and> leadsTo d [] d \<and> \<not> isObject d
          \<and> e = SegmentNotObject p (i + length ([]::string list))"
        by (simp add: leadsTo_Nil)
      then show "(\<exists>pre s post m. p # rest = pre @ s # post \<and> leadsTo d pre (JObject m) \<and> map_of m s = None
          \<and> e = SegmentNotFound s)
        \<or> (\<exists>pre s post v. p # rest = pre @ s # post \<and> leadsTo d pre v \<and> \<not> isObject v
          \<and> e = SegmentNotObject s (i + length pre))" by blast
    next
      assume "(\<exists>pre s post m. p # rest = pre @ s # post \<and> leadsTo d pre (JObject m) \<and> map_of m s = None
          \<and> e = SegmentNotFound s)
        \<or> (\<exists>pre s post v. p # rest = pre @ s # post \<and> leadsTo d pre v \<and> \<not> isObject v
          \<and> e = SegmentNotObject s (i + length pre))"
      then consider
        (a) pre s post m where "p # rest = pre @ s # post" "leadsTo d pre (JObject m)"
            "map_of m s = None" "e = SegmentNotFound s"
      | (b) pre s post v where "p # rest = pre @ s # post" "leadsTo d pre v" "\<not> isObject v"
            "e = SegmentNotObject s (i + length pre)"
        by blast
      then show "walkPath d (p # rest) i = Inl e"
      proof cases
        case a
        with no [of pre] have "pre = []" by blast
        with a False show ?thesis by (auto simp: leadsTo_Nil)
      next
        case b
        with no [of pre] have "pre = []" by blast
        with b w show ?thesis by simp
      qed
    qed
  next
    case True
    then obtain m where d: "d = JObject m" by (cases d) auto
    show ?thesis
    proof (cases "map_of m p")
      case None
      with d have w: "walkPath d (p # rest) i = Inl (SegmentNotFound p)" by simp
      from None d have no: "\<And>xs v. \<not> leadsTo d (p # xs) v"
        by (simp add: leadsTo_Cons)
      show ?thesis
      proof
        assume "walkPath d (p # rest) i = Inl e"
        with w have "e = SegmentNotFound p" by simp
        with None d have "p # rest = [] @ p # rest \<and> leadsTo d [] (JObject m) \<and> map_of m p = None
          \<and> e = SegmentNotFound p"
          by (simp add: leadsTo_Nil)
        then show "(\<exists>pre s post m. p # rest = pre @ s # post \<and> leadsTo d pre (JObject m) \<and> map_of m s = None
            \<and> e = SegmentNotFound s)
          \<or> (\<exists>pre s post v. p # rest = pre @ s # post \<and> leadsTo d pre v \<and> \<not> isObject v
            \<and> e = SegmentNotObject s (i + length pre))" by blast
      next
        assume "(\<exists>pre s post m. p # rest = pre @ s # post \<and> leadsTo d pre (JObject m) \<and> map_of m s = None
            \<and> e = SegmentNotFound s)
          \<or> (\<exists>pre s post v. p # rest = pre @ s # post \<and> leadsTo d pre v \<and> \<not> isObject v
            \<and> e = SegmentNotObject s (i + length pre))"
        then consider
          (a) pre s post m' where "p # rest = pre @ s # post" "leadsTo d pre (JObject m')"
              "map_of m' s = None" "e = SegmentNotFound s"
        | (b) pre s post v where "p # rest = pre @ s # post" "leadsTo d pre v" "\<not> isObject v"
              "e = SegmentNotObject s (i + length pre)"
          by blast
        then show "walkPath d (p # rest) i = Inl e"
        proof cases
          case a
          have "pre = []"
          proof (cases pre)
            case (Cons x xs)
            with a no [of xs] show ?thesis by simp
          qed simp
          with a w show ?thesis by simp
        next
          case b
          have "pre = []"
          proof (cases pre)
            case (Cons x xs)
            with b no [of xs] show ?thesis by simp
          qed simp
          with b d show ?thesis by (simp add: leadsTo_Nil)
        qed
      qed
    next
      case (Some nx)
      with d have w: "walkPath d (p # rest) i = walkPath nx rest (Suc i)" by simp
      have l: "\<And>xs v. leadsTo d (p # xs) v = leadsTo nx xs v"
        using Some d by (simp add: leadsTo_Cons)
      have "((\<exists>pre s post m. p # rest = pre @ s # post \<and> leadsTo d pre (JObject m) \<and> map_of m s = None
            \<and> e = SegmentNotFound s)
          \<or> (\<exists>pre s post v. p # rest = pre @ s # post \<and> leadsTo d pre v \<and> \<not> isObject v
            \<and> e = SegmentNotObject s (i + length pre)))
        = ((\<exists>pre s post m. rest = pre @ s # post \<and> leadsTo nx pre (JObject m) \<and> map_of m s = None
            \<and> e = SegmentNotFound s)
          \<or> (\<exists>pre s post v. rest = pre @ s # post \<and> leadsTo nx pre v \<and> \<not> isObject v
            \<and> e = SegmentNotObject s (Suc i + length pre)))" (is "(?A \<or> ?B) = (?A' \<or> ?B')")
      proof -
        have "?A = ?A'"
        proof
          assume ?A
          then obtain pre s post m' where a: "p # rest = pre @ s # post" "leadsTo d pre (JObject m')"
              "map_of m' s = None" "e = SegmentNotFound s" by blast
          show ?A'
          proof (cases pre)
            case Nil
            with a d Some show ?thesis by (simp add: leadsTo_Nil)
          next
            case (Cons x xs)
            with a l have "rest = xs @ s # post \<and> leadsTo nx xs (JObject m') \<and> map_of m' s = None
               \<and> e = SegmentNotFound s" by simp
            then show ?thesis by blast
          qed
        next
          assume ?A'
          then obtain pre s post m' where a: "rest = pre @ s # post" "leadsTo nx pre (JObject m')"
              "map_of m' s = None" "e = SegmentNotFound s" by blast
          with l have "p # rest = (p # pre) @ s # post \<and> leadsTo d (p # pre) (JObject m')
              \<and> map_of m' s = None \<and> e = SegmentNotFound s" by simp
          then show ?A by blast
        qed
        moreover have "?B = ?B'"
        proof
          assume ?B
          then obtain pre s post v where b: "p # rest = pre @ s # post" "leadsTo d pre v"
              "\<not> isObject v" "e = SegmentNotObject s (i + length pre)" by blast
          show ?B'
          proof (cases pre)
            case Nil
            with b d show ?thesis by (simp add: leadsTo_Nil)
          next
            case (Cons x xs)
            with b l have "rest = xs @ s # post \<and> leadsTo nx xs v \<and> \<not> isObject v
               \<and> e = SegmentNotObject s (Suc i + length xs)" by simp
            then show ?thesis by blast
          qed
        next
          assume ?B'
          then obtain pre s post v where b: "rest = pre @ s # post" "leadsTo nx pre v"
              "\<not> isObject v" "e = SegmentNotObject s (Suc i + length pre)" by blast
          with l have "p # rest = (p # pre) @ s # post \<and> leadsTo d (p # pre) v
              \<and> \<not> isObject v \<and> e = SegmentNotObject s (i + length (p # pre))" by simp
          then show ?B by blast
        qed
        ultimately show ?thesis by simp
      qed
      with w Cons.IH [of nx "Suc i"] show ?thesis by simp
    qed
  qed
qed


lemma ExtractTokenFromResponse_Inr:
  "(ExtractTokenFromResponse u body loc = Inr tok)
     = (loc \<noteq> [] \<and> tok \<noteq> []
        \<and> (\<exists>d. u body = Some d \<and> leadsTo d (strings_Split loc CHR ''.'') (JString tok)))"
  by (auto simp: ExtractTokenFromResponse_def walkPath_Inr_iff [of _ _ 0, symmetric]
           split: option.splits sum.splits json.splits if_splits)

lemma ExtractTokenFromResponse_Inl:
  "(ExtractTokenFromResponse u body loc = Inl e)
     = (loc = [] \<and> e = TokenLocationEmpty
      \<or> loc \<noteq> [] \<and> u body = None \<and> e = ParseFailed
      \<or> loc \<noteq> [] \<and> (\<exists>d. u body = Some d \<and>
          ((\<exists>pre s post m. strings_Split loc CHR ''.'' = pre @ s # post
               \<and> leadsTo d pre (JObject m) \<and> map_of m s = None \<and> e = SegmentNotFound s)
         \<or> (\<exists>pre s post v. strings_Split loc CHR ''.'' = pre @ s # post
               \<and> leadsTo d pre v \<and> \<not> isObject v \<and> e = SegmentNotObject s (length pre))
         \<or> (\<exists>v. leadsTo d (strings_Split loc CHR ''.'') v \<and> \<not> isString v
               \<and> e = TokenNotString loc)
         \<or> leadsTo d (strings_Split loc CHR ''.'') (JString []) \<and> e = TokenEmpty loc)))"
proof (cases "loc = []")
  case True
  then show ?thesis by (auto simp: ExtractTokenFromResponse_def)
next
  case False
  show ?thesis
  proof (cases "u body")
    case None
    with False show ?thesis by (auto simp: ExtractTokenFromResponse_def)
  next
    case (Some d)
    let ?parts = "strings_Split loc CHR ''.''"
    have r: "\<And>v. leadsTo d ?parts v = (walkPath d ?parts 0 = Inr v)"
      by (simp add: walkPath_Inr_iff)
    have "(ExtractTokenFromResponse u body loc = Inl e)
       = (walkPath d ?parts 0 = Inl e
         \<or> (\<exists>v. walkPath d ?parts 0 = Inr v \<and> \<not> isString v \<and> e = TokenNotString loc)
         \<or> walkPath d ?parts 0 = Inr (JString []) \<and> e = TokenEmpty loc)"
    proof (cases "walkPath d ?parts 0")
      case (Inl e')
      with False Some show ?thesis by (auto simp: ExtractTokenFromResponse_def)
    next
      case (Inr cur)
      with False Some show ?thesis
        by (cases cur) (auto simp: ExtractTokenFromResponse_def)
    qed
    with False Some show ?thesis
      using walkPath_Inl_iff [of d ?parts 0 e] by (simp add: r)
  qed
qed


text \<open>
  C2. \<open>ExtractTokenFromResponse\<close> returns a token exactly when the path is not empty, the
  document decodes, and the path leads through objects to a non-empty string, which is the
  token returned. It returns an error exactly in the remaining cases, one error for each:
  the path is empty; the document is not valid JSON; a segment is absent from the object
  reached; a hop is not an object; the value at the path is not a string; the string is
  empty. For any decoder that reads the two documents of the examples as the trees they
  denote, the path \<open>data.login.token\<close> gives \<open>abc\<close> in the first and the error for the
  missing segment \<open>login\<close> in the second.
\<close>

theorem ExtractTokenFromResponse_correct:
  \<open>((ExtractTokenFromResponse u body loc = Inr tok)
     = (loc \<noteq> [] \<and> tok \<noteq> []
        \<and> (\<exists>d. u body = Some d \<and> leadsTo d (strings_Split loc CHR ''.'') (JString tok))))
   \<and> ((ExtractTokenFromResponse u body loc = Inl e)
     = (loc = [] \<and> e = TokenLocationEmpty
      \<or> loc \<noteq> [] \<and> u body = None \<and> e = ParseFailed
      \<or> loc \<noteq> [] \<and> (\<exists>d. u body = Some d \<and>
          ((\<exists>pre s post m. strings_Split loc CHR ''.'' = pre @ s # post
               \<and> leadsTo d pre (JObject m) \<and> map_of m s = None \<and> e = SegmentNotFound s)
         \<or> (\<exists>pre s post v. strings_Split loc CHR ''.'' = pre @ s # post
               \<and> leadsTo d pre v \<and> \<not> isObject v \<and> e = SegmentNotObject s (length pre))
         \<or> (\<exists>v. leadsTo d (strings_Split loc CHR ''.'') v \<and> \<not> isString v
               \<and> e = TokenNotString loc)
         \<or> leadsTo d (strings_Split loc CHR ''.'') (JString []) \<and> e = TokenEmpty loc))))
   \<and> (u ''{"data":{"login":{"token":"abc"}}}''
          = Some (JObject [(''data'', JObject [(''login'', JObject [(''token'', JString ''abc'')])])])
        \<longrightarrow> ExtractTokenFromResponse u ''{"data":{"login":{"token":"abc"}}}'' ''data.login.token''
              = Inr ''abc'')
   \<and> (u ''{"data":{}}'' = Some (JObject [(''data'', JObject [])])
        \<longrightarrow> ExtractTokenFromResponse u ''{"data":{}}'' ''data.login.token''
              = Inl (SegmentNotFound ''login''))\<close>
proof -
  have \<open>u ''{"data":{}}'' = Some (JObject [(''data'', JObject [])])
        \<longrightarrow> ExtractTokenFromResponse u ''{"data":{}}'' ''data.login.token''
              = Inl (SegmentNotFound ''login'')\<close>
    by (simp add: ExtractTokenFromResponse_def)
  moreover have \<open>u ''{"data":{"login":{"token":"abc"}}}''
          = Some (JObject [(''data'', JObject [(''login'', JObject [(''token'', JString ''abc'')])])])
        \<longrightarrow> ExtractTokenFromResponse u ''{"data":{"login":{"token":"abc"}}}'' ''data.login.token''
              = Inr ''abc''\<close>
    by (simp add: ExtractTokenFromResponse_def)
  ultimately show ?thesis
    using ExtractTokenFromResponse_Inr [of u body loc tok]
      ExtractTokenFromResponse_Inl [of u body loc e] by blast
qed

theorem ExtractTokenFromResponse_correct_witness:
  \<open>(\<lambda>s. if s = ''{"data":{"login":{"token":"abc"}}}''
         then Some (JObject [(''data'', JObject [(''login'', JObject [(''token'', JString ''abc'')])])])
         else if s = ''{"data":{}}'' then Some (JObject [(''data'', JObject [])]) else None)
      ''{"data":{"login":{"token":"abc"}}}''
     = Some (JObject [(''data'', JObject [(''login'', JObject [(''token'', JString ''abc'')])])])
   \<and> ExtractTokenFromResponse
       (\<lambda>s. if s = ''{"data":{"login":{"token":"abc"}}}''
         then Some (JObject [(''data'', JObject [(''login'', JObject [(''token'', JString ''abc'')])])])
         else if s = ''{"data":{}}'' then Some (JObject [(''data'', JObject [])]) else None)
       ''{"data":{"login":{"token":"abc"}}}'' ''data.login.token'' = Inr ''abc''
   \<and> (\<lambda>s. if s = ''{"data":{"login":{"token":"abc"}}}''
         then Some (JObject [(''data'', JObject [(''login'', JObject [(''token'', JString ''abc'')])])])
         else if s = ''{"data":{}}'' then Some (JObject [(''data'', JObject [])]) else None)
      ''{"data":{}}''
     = Some (JObject [(''data'', JObject [])])
   \<and> ExtractTokenFromResponse
       (\<lambda>s. if s = ''{"data":{"login":{"token":"abc"}}}''
         then Some (JObject [(''data'', JObject [(''login'', JObject [(''token'', JString ''abc'')])])])
         else if s = ''{"data":{}}'' then Some (JObject [(''data'', JObject [])]) else None)
       ''{"data":{}}'' ''data.login.token'' = Inl (SegmentNotFound ''login'')\<close>
  using ExtractTokenFromResponse_correct
    [of \<open>\<lambda>s. if s = ''{"data":{"login":{"token":"abc"}}}''
         then Some (JObject [(''data'', JObject [(''login'', JObject [(''token'', JString ''abc'')])])])
         else if s = ''{"data":{}}'' then Some (JObject [(''data'', JObject [])]) else None\<close>
      "[]" "[]" "[]" TokenLocationEmpty]
  by simp

subsection \<open>Basic authentication\<close>

text \<open>The loop keeps, for each of the two buckets, the value of the last pair that matches.\<close>

lemma basicAuthLoop_last:
  "basicAuthLoop (u0, p0) cd =
     (let us = filter (\<lambda>p. Key p = ''username'' \<or> Key p = ''user'') cd;
          ps = filter (\<lambda>p. Key p = ''password'' \<or> Key p = ''pass'') cd
      in (if us = [] then u0 else CredentialsPairType.Value (last us),
          if ps = [] then p0 else CredentialsPairType.Value (last ps)))"
  by (induction cd arbitrary: u0 p0) (simp_all add: Let_def)

text \<open>
  C5, as the claim states it: the first match of each bucket is taken. For the pairs
  \<open>username\<rightarrow>a\<close>, \<open>user\<rightarrow>b\<close>, \<open>password\<rightarrow>p\<close> the first pair of the username bucket
  has the value \<open>a\<close>, but the header that is returned encodes \<open>b:p\<close>, not \<open>a:p\<close>.
\<close>

theorem handleBasicAuth_last_match_wins:
  "find (\<lambda>p. Key p = ''username'' \<or> Key p = ''user'')
      [\<lparr>Key = ''username'', CredentialsPairType.Value = ''a''\<rparr>,
       \<lparr>Key = ''user'', CredentialsPairType.Value = ''b''\<rparr>,
       \<lparr>Key = ''password'', CredentialsPairType.Value = ''p''\<rparr>]
     = Some \<lparr>Key = ''username'', CredentialsPairType.Value = ''a''\<rparr>
   \<and> find (\<lambda>p. Key p = ''password'' \<or> Key p = ''pass'')
      [\<lparr>Key = ''username'', CredentialsPairType.Value = ''a''\<rparr>,
       \<lparr>Key = ''user'', CredentialsPairType.Value = ''b''\<rparr>,
       \<lparr>Key = ''password'', CredentialsPairType.Value = ''p''\<rparr>]
     = Some \<lparr>Key = ''password'', CredentialsPairType.Value = ''p''\<rparr>
   \<and> handleBasicAuth
       \<lparr>AuthType = ''BASIC'', CredentialsType.EndpointType = '''',
        CredentialData =
          [\<lparr>Key = ''username'', CredentialsPairType.Value = ''a''\<rparr>,
           \<lparr>Key = ''user'', CredentialsPairType.Value = ''b''\<rparr>,
           \<lparr>Key = ''password'', CredentialsPairType.Value = ''p''\<rparr>],
        Token = None, TokenLocation = '''', TokenTtl = None, ApiKey = '''',
        EndpointData = None\<rparr>
     = Inr ''Basic Yjpw''
   \<and> ''Basic '' @ EncodeToString ''b:p'' = ''Basic Yjpw''
   \<and> ''Basic '' @ EncodeToString ''a:p'' = ''Basic YTpw''"
  by (simp add: handleBasicAuth_def encodeStd_def)

text \<open>
  C5, amended. For authType BASIC, \<open>GetAuthToken\<close> takes as username the value of the last
  pair whose key is \<open>username\<close> or \<open>user\<close>, and as password the value of the last pair
  whose key is \<open>password\<close> or \<open>pass\<close>; it fails when either is the empty string, which is
  so when no pair matches and when the last match has an empty value; otherwise it returns
  \<open>Basic\<close>, a space, and the base64 encoding of \<open>username:password\<close>. The cache is not
  touched.
\<close>

theorem GetAuthToken_BASIC:
  assumes "AuthType creds = ''BASIC''"
  shows "GetAuthToken h tGet tSet serviceId (Some creds) =
     (let us = filter (\<lambda>p. Key p = ''username'' \<or> Key p = ''user'') (CredentialData creds);
          ps = filter (\<lambda>p. Key p = ''password'' \<or> Key p = ''pass'') (CredentialData creds);
          username = (if us = [] then '''' else CredentialsPairType.Value (last us));
          password = (if ps = [] then '''' else CredentialsPairType.Value (last ps))
      in (if username = [] \<or> password = [] then Inl UsernameOrPasswordNotFound
          else Inr (''Basic '' @ EncodeToString (username @ '':'' @ password)),
          cache h))"
  using assms
  by (simp add: GetAuthToken_def handleBasicAuth_def basicAuthLoop_last Let_def)

theorem GetAuthToken_BASIC_witness:
  "AuthType \<lparr>AuthType = ''BASIC'', CredentialsType.EndpointType = '''',
        CredentialData =
          [\<lparr>Key = ''username'', CredentialsPairType.Value = ''u''\<rparr>,
           \<lparr>Key = ''password'', CredentialsPairType.Value = ''p''\<rparr>],
        Token = None, TokenLocation = '''', TokenTtl = None, ApiKey = '''',
        EndpointData = None\<rparr> = ''BASIC''
   \<and> GetAuthToken
       \<lparr>client = \<lparr>json_Marshal = \<lambda>v. None, json_Unmarshal = \<lambda>s. None,
                   rangeOrder = \<lambda>m. m, http_NewRequest = \<lambda>m u. True,
                   client_Do = \<lambda>r. None\<rparr>,
        cache = NewTokenCache,
        config = \<lparr>CacheEnabled = True, TokenRefreshBuffer = 10\<rparr>\<rparr>
       1700000000 1700000000 ''svc''
       (Some \<lparr>AuthType = ''BASIC'', CredentialsType.EndpointType = '''',
        CredentialData =
          [\<lparr>Key = ''username'', CredentialsPairType.Value = ''u''\<rparr>,
           \<lparr>Key = ''password'', CredentialsPairType.Value = ''p''\<rparr>],
        Token = None, TokenLocation = '''', TokenTtl = None, ApiKey = '''',
        EndpointData = None\<rparr>)
     = (Inr (''Basic '' @ EncodeToString ''u:p''), NewTokenCache)
   \<and> ''Basic '' @ EncodeToString ''u:p'' = ''Basic dTpw''"
proof -
  let ?creds = "\<lparr>AuthType = ''BASIC'', CredentialsType.EndpointType = '''',
        CredentialData =
          [\<lparr>Key = ''username'', CredentialsPairType.Value = ''u''\<rparr>,
           \<lparr>Key = ''password'', CredentialsPairType.Value = ''p''\<rparr>],
        Token = None, TokenLocation = '''', TokenTtl = None, ApiKey = '''',
        EndpointData = None\<rparr>"
  have a: "AuthType ?creds = ''BASIC''" by simp
  have e: "''Basic '' @ EncodeToString ''u:p'' = ''Basic dTpw''"
    by (simp add: encodeStd_def)
  from GetAuthToken_BASIC [OF a] e a show ?thesis
    by (simp add: Let_def)
qed

subsection \<open>The parameters of a REST request\<close>

lemma findCredentialValue_find:
  "findCredentialValue cd k
     = (case find (\<lambda>pair. Key pair = k) cd of
          None \<Rightarrow> '''' | Some pair \<Rightarrow> CredentialsPairType.Value pair)"
  by (induction cd) simp_all

lemma processParameters_error:
  "processParameters cd ps st = Inl e \<Longrightarrow>
   \<exists>p\<in>set ps. ContentAttributeType.Required p
      \<and> findCredentialValue cd (ContentAttributeType.Value p) = []
      \<and> e = RequiredParameterNotFound (ContentAttributeType.Value p)"
  by (induction cd ps st rule: processParameters.induct)
     (auto simp: Let_def split: if_splits)

lemma processParameters_fails:
  "p \<in> set ps \<Longrightarrow> ContentAttributeType.Required p \<Longrightarrow>
   findCredentialValue cd (ContentAttributeType.Value p) = [] \<Longrightarrow>
   \<exists>e. processParameters cd ps st = Inl e"
  by (induction cd ps st rule: processParameters.induct)
     (auto simp: Let_def split: if_splits)

lemma appendQuery_queryString:
  "appendQuery url first xs
     = url @ (if xs = [] then [] else (if first then [] else ''&'') @ queryString xs)"
proof (induction xs arbitrary: url first)
  case Nil
  show ?case by simp
next
  case (Cons x xs)
  obtain k v where x: "x = (k, v)" by (cases x)
  show ?case
  proof (cases xs)
    case Nil
    with x show ?thesis by simp
  next
    case (Cons y ys)
    with x Cons.IH [of "(if \<not> first then url @ ''&'' else url) @ k @ ''='' @ v" False]
    show ?thesis by simp
  qed
qed

lemma queryString_split:
  "queryString (xs @ (k, v) # ys)
     = (if xs = [] then [] else queryString xs @ ''&'') @ k @ ''='' @ v
       @ (if ys = [] then [] else ''&'' @ queryString ys)"
proof (induction xs)
  case Nil
  show ?case by (cases ys) auto
next
  case (Cons x xs)
  obtain a b where x: "x = (a, b)" by (cases x)
  show ?case
  proof (cases xs)
    case Nil
    with x show ?thesis by (cases ys) auto
  next
    case (Cons y zs)
    with x Cons.IH show ?thesis by simp
  qed
qed

lemma processParameters_maps:
  "processParameters cd ps (h, q, u) = Inr (h', q', u') \<Longrightarrow>
     map_of h' k = (if \<exists>p\<in>set ps. Location p = ''header'' \<and> ContentAttributeType.Value p = k
                    then Some (findCredentialValue cd k) else map_of h k)
   \<and> map_of q' k = (if \<exists>p\<in>set ps. Location p = ''query'' \<and> ContentAttributeType.Value p = k
                    then Some (findCredentialValue cd k) else map_of q k)
   \<and> (distinct (map fst q) \<longrightarrow> distinct (map fst q'))
   \<and> ((\<forall>p\<in>set ps. Location p \<noteq> ''path'') \<longrightarrow> u' = u)"
proof (induction cd ps "(h, q, u)" arbitrary: h q u rule: processParameters.induct)
  case (1 credentialData headers queryParams url)
  then show ?case by simp
next
  case (2 credentialData param rest headers queryParams url)
  let ?name = "ContentAttributeType.Value param"
  let ?val = "findCredentialValue credentialData ?name"
  let ?st = "if Location param = ''header''
              then (AList.update ?name ?val headers, queryParams, url)
            else if Location param = ''query''
              then (headers, AList.update ?name ?val queryParams, url)
            else if Location param = ''path''
              then (headers, queryParams, strings_ReplaceAll url (''{'' @ ?name @ ''}'') ?val)
            else (headers, queryParams, url)"
  from "2.prems" have ok: "\<not> (?val = [] \<and> ContentAttributeType.Required param)"
    and run: "processParameters credentialData rest ?st = Inr (h', q', u')"
    by (auto simp: Let_def split: if_splits)
  obtain h1 q1 u1 where st: "?st = (h1, q1, u1)" by (cases ?st) auto
  from run st have run1: "processParameters credentialData rest (h1, q1, u1) = Inr (h', q', u')"
    by simp
  note ih = "2.hyps" [OF refl ok st run1]
  have h1: "map_of h1 k = (if Location param = ''header'' \<and> ?name = k then Some ?val
                           else map_of headers k)"
    using st by (auto simp: update_conv' split: if_splits)
  have q1: "map_of q1 k = (if Location param = ''query'' \<and> ?name = k then Some ?val
                           else map_of queryParams k)"
    using st by (auto simp: update_conv' split: if_splits)
  have d1: "distinct (map fst queryParams) \<longrightarrow> distinct (map fst q1)"
    using st by (auto simp: distinct_update split: if_splits)
  have u1: "Location param \<noteq> ''path'' \<longrightarrow> u1 = url"
    using st by (auto split: if_splits)
  have A: "map_of h' k = (if \<exists>p\<in>set (param # rest). Location p = ''header'' \<and> ContentAttributeType.Value p = k
                    then Some (findCredentialValue credentialData k) else map_of headers k)"
    using ih h1 by auto
  have B: "map_of q' k = (if \<exists>p\<in>set (param # rest). Location p = ''query'' \<and> ContentAttributeType.Value p = k
                    then Some (findCredentialValue credentialData k) else map_of queryParams k)"
    using ih q1 by auto
  have C: "distinct (map fst queryParams) \<longrightarrow> distinct (map fst q')"
    using ih d1 by simp
  have D: "(\<forall>p\<in>set (param # rest). Location p \<noteq> ''path'') \<longrightarrow> u' = url"
    using ih u1 by simp
  from A B C D show ?case by simp
qed

text \<open>
  C10. When the body block of \<open>BuildRESTRequest\<close> has succeeded, the build fails exactly
  when some required parameter resolves to the empty string, and the error then names such a
  parameter and nothing else. A parameter resolves to the value of the first pair with its
  name, and to the empty string when there is none, so a required parameter with an empty
  value is rejected as one with no pair is. When the build succeeds, the header map binds
  every header parameter to its resolved value and is otherwise as the body block left it;
  the query map binds exactly the query parameters, each to its resolved value; the URL is
  the substituted path, followed, when there are query parameters, by \<open>?\<close> and the entries
  of the query map as \<open>name=value\<close> joined by \<open>&\<close> in the order of \<open>range\<close>. So, when
  \<open>range\<close> visits exactly the entries of the map, every query parameter stands in the
  query string as \<open>name=value\<close> between the delimiters, and a parameter that is not required
  and has no pair stands there as \<open>name=\<close> with nothing after the equals sign.
\<close>

theorem BuildRESTRequest_parameters:
  assumes "buildRequestBody lib ep cd = Inr (body, headers0)"
  shows "((\<exists>e. BuildRESTRequest lib (Some ep) cd baseURL = Inl e)
            = (\<exists>p\<in>set (Parameters ep). ContentAttributeType.Required p
                 \<and> findCredentialValue cd (ContentAttributeType.Value p) = []))
       \<and> (\<forall>e. BuildRESTRequest lib (Some ep) cd baseURL = Inl e \<longrightarrow>
             (\<exists>p\<in>set (Parameters ep). ContentAttributeType.Required p
                 \<and> findCredentialValue cd (ContentAttributeType.Value p) = []
                 \<and> e = RequiredParameterNotFound (ContentAttributeType.Value p)))
       \<and> (\<forall>k. findCredentialValue cd k
               = (case find (\<lambda>pair. Key pair = k) cd of
                    None \<Rightarrow> [] | Some pair \<Rightarrow> CredentialsPairType.Value pair))
       \<and> (\<forall>meth url b headers.
             BuildRESTRequest lib (Some ep) cd baseURL = Inr (meth, url, b, headers) \<longrightarrow>
               meth = Method ep \<and> b = body
             \<and> (\<forall>p\<in>set (Parameters ep). Location p = ''header'' \<longrightarrow>
                   map_of headers (ContentAttributeType.Value p)
                     = Some (findCredentialValue cd (ContentAttributeType.Value p)))
             \<and> (\<forall>k. map_of headers k
                   = (if \<exists>p\<in>set (Parameters ep).
                           Location p = ''header'' \<and> ContentAttributeType.Value p = k
                      then Some (findCredentialValue cd k) else map_of headers0 k))
             \<and> (\<exists>u q. url = (if q = [] then u
                              else u @ ''?'' @ queryString (rangeOrder lib q))
                   \<and> distinct (map fst q)
                   \<and> (\<forall>k. map_of q k
                         = (if \<exists>p\<in>set (Parameters ep).
                                 Location p = ''query'' \<and> ContentAttributeType.Value p = k
                            then Some (findCredentialValue cd k) else None))
                   \<and> ((\<forall>p\<in>set (Parameters ep). Location p \<noteq> ''path'')
                         \<longrightarrow> u = baseURL @ Path ep))
             \<and> (\<forall>p\<in>set (Parameters ep).
                   Location p = ''query'' \<and> (\<forall>m. set (rangeOrder lib m) = set m) \<longrightarrow>
                   (\<exists>u a c. url = u @ ''?'' @ a @ ContentAttributeType.Value p @ ''=''
                                  @ findCredentialValue cd (ContentAttributeType.Value p) @ c
                       \<and> (a = [] \<or> last a = CHR ''&'') \<and> (c = [] \<or> hd c = CHR ''&''))))"
proof -
  let ?run = "processParameters cd (Parameters ep) (headers0, [], baseURL @ Path ep)"
  have build: "BuildRESTRequest lib (Some ep) cd baseURL =
      (case ?run of
         Inl err \<Rightarrow> Inl err
       | Inr (headers, queryParams, url) \<Rightarrow>
           Inr (Method ep,
                (if length queryParams > 0
                 then appendQuery (url @ ''?'') True (rangeOrder lib queryParams)
                 else url),
                body, headers))"
    using assms by (simp add: BuildRESTRequest_def)
  have A: "(\<exists>e. BuildRESTRequest lib (Some ep) cd baseURL = Inl e)
            = (\<exists>p\<in>set (Parameters ep). ContentAttributeType.Required p
                 \<and> findCredentialValue cd (ContentAttributeType.Value p) = [])"
  proof
    assume "\<exists>e. BuildRESTRequest lib (Some ep) cd baseURL = Inl e"
    then obtain e where "?run = Inl e"
      unfolding build by (auto split: sum.splits prod.splits)
    from processParameters_error [OF this] show "\<exists>p\<in>set (Parameters ep).
        ContentAttributeType.Required p \<and> findCredentialValue cd (ContentAttributeType.Value p) = []"
      by blast
  next
    assume "\<exists>p\<in>set (Parameters ep). ContentAttributeType.Required p
                 \<and> findCredentialValue cd (ContentAttributeType.Value p) = []"
    then obtain p where "p \<in> set (Parameters ep)" "ContentAttributeType.Required p"
      "findCredentialValue cd (ContentAttributeType.Value p) = []" by blast
    from processParameters_fails [OF this] obtain e where "?run = Inl e" by blast
    then show "\<exists>e. BuildRESTRequest lib (Some ep) cd baseURL = Inl e"
      unfolding build by simp
  qed
  have B: "\<forall>e. BuildRESTRequest lib (Some ep) cd baseURL = Inl e \<longrightarrow>
             (\<exists>p\<in>set (Parameters ep). ContentAttributeType.Required p
                 \<and> findCredentialValue cd (ContentAttributeType.Value p) = []
                 \<and> e = RequiredParameterNotFound (ContentAttributeType.Value p))"
  proof (intro allI impI)
    fix e assume "BuildRESTRequest lib (Some ep) cd baseURL = Inl e"
    then have "?run = Inl e"
      unfolding build by (auto split: sum.splits prod.splits)
    from processParameters_error [OF this] show "\<exists>p\<in>set (Parameters ep).
        ContentAttributeType.Required p \<and> findCredentialValue cd (ContentAttributeType.Value p) = []
        \<and> e = RequiredParameterNotFound (ContentAttributeType.Value p)" .
  qed
  have D: "\<forall>meth url b headers.
             BuildRESTRequest lib (Some ep) cd baseURL = Inr (meth, url, b, headers) \<longrightarrow>
               meth = Method ep \<and> b = body
             \<and> (\<forall>p\<in>set (Parameters ep). Location p = ''header'' \<longrightarrow>
                   map_of headers (ContentAttributeType.Value p)
                     = Some (findCredentialValue cd (ContentAttributeType.Value p)))
             \<and> (\<forall>k. map_of headers k
                   = (if \<exists>p\<in>set (Parameters ep).
                           Location p = ''header'' \<and> ContentAttributeType.Value p = k
                      then Some (findCredentialValue cd k) else map_of headers0 k))
             \<and> (\<exists>u q. url = (if q = [] then u
                              else u @ ''?'' @ queryString (rangeOrder lib q))
                   \<and> distinct (map fst q)
                   \<and> (\<forall>k. map_of q k
                         = (if \<exists>p\<in>set (Parameters ep).
                                 Location p = ''query'' \<and> ContentAttributeType.Value p = k
                            then Some (findCredentialValue cd k) else None))
                   \<and> ((\<forall>p\<in>set (Parameters ep). Location p \<noteq> ''path'')
                         \<longrightarrow> u = baseURL @ Path ep))
             \<and> (\<forall>p\<in>set (Parameters ep).
                   Location p = ''query'' \<and> (\<forall>m. set (rangeOrder lib m) = set m) \<longrightarrow>
                   (\<exists>u a c. url = u @ ''?'' @ a @ ContentAttributeType.Value p @ ''=''
                                  @ findCredentialValue cd (ContentAttributeType.Value p) @ c
                       \<and> (a = [] \<or> last a = CHR ''&'') \<and> (c = [] \<or> hd c = CHR ''&'')))"
  proof (intro allI impI)
    fix meth url b headers
    assume ok: "BuildRESTRequest lib (Some ep) cd baseURL = Inr (meth, url, b, headers)"
    from ok obtain q u where run: "?run = Inr (headers, q, u)"
      and url_eq: "url = (if length q > 0 then appendQuery (u @ ''?'') True (rangeOrder lib q) else u)"
      and mb: "meth = Method ep" "b = body"
      unfolding build by (auto split: sum.splits prod.splits)
    have maps: "\<And>k. map_of headers k
                   = (if \<exists>p\<in>set (Parameters ep).
                           Location p = ''header'' \<and> ContentAttributeType.Value p = k
                      then Some (findCredentialValue cd k) else map_of headers0 k)"
      "\<And>k. map_of q k
                   = (if \<exists>p\<in>set (Parameters ep).
                           Location p = ''query'' \<and> ContentAttributeType.Value p = k
                      then Some (findCredentialValue cd k) else None)"
      "distinct (map fst q)"
      "(\<forall>p\<in>set (Parameters ep). Location p \<noteq> ''path'') \<longrightarrow> u = baseURL @ Path ep"
      using processParameters_maps [OF run] by simp_all
    have hdr: "\<forall>p\<in>set (Parameters ep). Location p = ''header'' \<longrightarrow>
                   map_of headers (ContentAttributeType.Value p)
                     = Some (findCredentialValue cd (ContentAttributeType.Value p))"
      using maps(1) by auto
    have qs: "url = (if q = [] then u else u @ ''?'' @ queryString (rangeOrder lib q))"
      using url_eq by (simp add: appendQuery_queryString)
    have whole: "\<exists>u q. url = (if q = [] then u
                              else u @ ''?'' @ queryString (rangeOrder lib q))
                   \<and> distinct (map fst q)
                   \<and> (\<forall>k. map_of q k
                         = (if \<exists>p\<in>set (Parameters ep).
                                 Location p = ''query'' \<and> ContentAttributeType.Value p = k
                            then Some (findCredentialValue cd k) else None))
                   \<and> ((\<forall>p\<in>set (Parameters ep). Location p \<noteq> ''path'')
                         \<longrightarrow> u = baseURL @ Path ep)"
      using qs maps(2,3,4) by blast
    have one: "\<forall>p\<in>set (Parameters ep).
                   Location p = ''query'' \<and> (\<forall>m. set (rangeOrder lib m) = set m) \<longrightarrow>
                   (\<exists>u a c. url = u @ ''?'' @ a @ ContentAttributeType.Value p @ ''=''
                                  @ findCredentialValue cd (ContentAttributeType.Value p) @ c
                       \<and> (a = [] \<or> last a = CHR ''&'') \<and> (c = [] \<or> hd c = CHR ''&''))"
    proof (intro ballI impI)
      fix p
      assume p: "p \<in> set (Parameters ep)"
        and a: "Location p = ''query'' \<and> (\<forall>m. set (rangeOrder lib m) = set m)"
      let ?k = "ContentAttributeType.Value p"
      let ?v = "findCredentialValue cd ?k"
      from maps(2) [of ?k] p a have "map_of q ?k = Some ?v" by auto
      then have "(?k, ?v) \<in> set q" by (rule map_of_SomeD)
      with a have m: "(?k, ?v) \<in> set (rangeOrder lib q)" and ne: "q \<noteq> []" by auto
      from m obtain xs ys where s: "rangeOrder lib q = xs @ (?k, ?v) # ys"
        by (auto simp: in_set_conv_decomp)
      let ?a = "if xs = [] then [] else queryString xs @ ''&''"
      let ?c = "if ys = [] then [] else ''&'' @ queryString ys"
      from qs ne s have "url = u @ ''?'' @ ?a @ ?k @ ''='' @ ?v @ ?c"
        by (simp add: queryString_split)
      moreover have "?a = [] \<or> last ?a = CHR ''&''" by simp
      moreover have "?c = [] \<or> hd ?c = CHR ''&''" by simp
      ultimately show "\<exists>u a c. url = u @ ''?'' @ a @ ?k @ ''='' @ ?v @ c
                       \<and> (a = [] \<or> last a = CHR ''&'') \<and> (c = [] \<or> hd c = CHR ''&'')"
        by blast
    qed
    from mb hdr maps(1) whole one show "meth = Method ep \<and> b = body
             \<and> (\<forall>p\<in>set (Parameters ep). Location p = ''header'' \<longrightarrow>
                   map_of headers (ContentAttributeType.Value p)
                     = Some (findCredentialValue cd (ContentAttributeType.Value p)))
             \<and> (\<forall>k. map_of headers k
                   = (if \<exists>p\<in>set (Parameters ep).
                           Location p = ''header'' \<and> ContentAttributeType.Value p = k
                      then Some (findCredentialValue cd k) else map_of headers0 k))
             \<and> (\<exists>u q. url = (if q = [] then u
                              else u @ ''?'' @ queryString (rangeOrder lib q))
                   \<and> distinct (map fst q)
                   \<and> (\<forall>k. map_of q k
                         = (if \<exists>p\<in>set (Parameters ep).
                                 Location p = ''query'' \<and> ContentAttributeType.Value p = k
                            then Some (findCredentialValue cd k) else None))
                   \<and> ((\<forall>p\<in>set (Parameters ep). Location p \<noteq> ''path'')
                         \<longrightarrow> u = baseURL @ Path ep))
             \<and> (\<forall>p\<in>set (Parameters ep).
                   Location p = ''query'' \<and> (\<forall>m. set (rangeOrder lib m) = set m) \<longrightarrow>
                   (\<exists>u a c. url = u @ ''?'' @ a @ ContentAttributeType.Value p @ ''=''
                                  @ findCredentialValue cd (ContentAttributeType.Value p) @ c
                       \<and> (a = [] \<or> last a = CHR ''&'') \<and> (c = [] \<or> hd c = CHR ''&'')))"
      by blast
  qed
  from A B D findCredentialValue_find show ?thesis by blast
qed

theorem BuildRESTRequest_parameters_witness:
  "buildRequestBody
      \<lparr>json_Marshal = \<lambda>v. None, json_Unmarshal = \<lambda>s. None, rangeOrder = \<lambda>m. m,
       http_NewRequest = \<lambda>m u. True, client_Do = \<lambda>r. None\<rparr>
      \<lparr>Method = ''POST'', Path = ''/login'',
       Parameters =
         [\<lparr>ContentAttributeType.Value = ''X-Api'', ContentAttributeType.Required = False,
           Location = ''header''\<rparr>,
          \<lparr>ContentAttributeType.Value = ''q'', ContentAttributeType.Required = False,
           Location = ''query''\<rparr>],
       RequestBody = None\<rparr> []
     = Inr (None, [])
   \<and> BuildRESTRequest
      \<lparr>json_Marshal = \<lambda>v. None, json_Unmarshal = \<lambda>s. None, rangeOrder = \<lambda>m. m,
       http_NewRequest = \<lambda>m u. True, client_Do = \<lambda>r. None\<rparr>
      (Some \<lparr>Method = ''POST'', Path = ''/login'',
       Parameters =
         [\<lparr>ContentAttributeType.Value = ''X-Api'', ContentAttributeType.Required = False,
           Location = ''header''\<rparr>,
          \<lparr>ContentAttributeType.Value = ''q'', ContentAttributeType.Required = False,
           Location = ''query''\<rparr>],
       RequestBody = None\<rparr>) [] ''''
     = Inr (''POST'', ''/login?q='', None, [(''X-Api'', '''')])
   \<and> BuildRESTRequest
      \<lparr>json_Marshal = \<lambda>v. None, json_Unmarshal = \<lambda>s. None, rangeOrder = \<lambda>m. m,
       http_NewRequest = \<lambda>m u. True, client_Do = \<lambda>r. None\<rparr>
      (Some \<lparr>Method = ''POST'', Path = ''/login'',
       Parameters =
         [\<lparr>ContentAttributeType.Value = ''k'', ContentAttributeType.Required = True,
           Location = ''header''\<rparr>],
       RequestBody = None\<rparr>) [\<lparr>Key = ''k'', CredentialsPairType.Value = ''''\<rparr>] ''''
     = Inl (RequiredParameterNotFound ''k'')
   \<and> BuildRESTRequest
      \<lparr>json_Marshal = \<lambda>v. None, json_Unmarshal = \<lambda>s. None, rangeOrder = \<lambda>m. m,
       http_NewRequest = \<lambda>m u. True, client_Do = \<lambda>r. None\<rparr>
      (Some \<lparr>Method = ''POST'', Path = ''/login'',
       Parameters =
         [\<lparr>ContentAttributeType.Value = ''k'', ContentAttributeType.Required = True,
           Location = ''header''\<rparr>],
       RequestBody = None\<rparr>) [] ''''
     = Inl (RequiredParameterNotFound ''k'')"
proof -
  let ?lib = "\<lparr>json_Marshal = \<lambda>v. None, json_Unmarshal = \<lambda>s. None, rangeOrder = \<lambda>m. m,
       http_NewRequest = \<lambda>m u. True, client_Do = \<lambda>r. None\<rparr>"
  let ?ep = "\<lparr>Method = ''POST'', Path = ''/login'',
       Parameters =
         [\<lparr>ContentAttributeType.Value = ''X-Api'', ContentAttributeType.Required = False,
           Location = ''header''\<rparr>,
          \<lparr>ContentAttributeType.Value = ''q'', ContentAttributeType.Required = False,
           Location = ''query''\<rparr>],
       RequestBody = None\<rparr>"
  have h: "buildRequestBody ?lib ?ep [] = Inr (None, [])"
    by (simp add: buildRequestBody_def)
  have r: "BuildRESTRequest ?lib (Some ?ep) [] '''' = Inr (''POST'', ''/login?q='', None, [(''X-Api'', '''')])"
    by (simp add: BuildRESTRequest_def buildRequestBody_def)
  from BuildRESTRequest_parameters [OF h, of "''''"] h r show ?thesis
    by (simp add: BuildRESTRequest_def buildRequestBody_def)
qed

subsection \<open>Login authentication\<close>

lemma fetchToken_errors:
  "fetchToken lib credentials = Inl e \<Longrightarrow>
   e = NoEndpointConfigured \<or> e = InvalidEndpointConfiguration \<or> (\<exists>e'. e = ObtainTokenFailed e')"
  by (auto simp: fetchToken_def split: option.splits list.splits sum.splits bool.splits if_splits)

lemma handleLoginAuth_failure:
  assumes "fst (handleLoginAuth h tGet tSet serviceId credentials) = Inl e"
  shows "snd (handleLoginAuth h tGet tSet serviceId credentials) = cache h
       \<and> fetchToken (client h) credentials = Inl e"
  using assms
  by (auto simp: handleLoginAuth_def split: prod.splits option.splits sum.splits if_splits)

text \<open>
  C7. When \<open>GetAuthToken\<close> fails for authType LOGIN, the cache is the one the handler had
  before the call. The error is that no endpoint is configured, that the endpoint
  configuration is invalid, or the wrapped error of the call to the endpoint (request build,
  transport, status code and token extraction).
\<close>

theorem GetAuthToken_LOGIN_failure_keeps_cache:
  assumes "AuthType creds = ''LOGIN''"
      and "fst (GetAuthToken h tGet tSet serviceId (Some creds)) = Inl e"
  shows "snd (GetAuthToken h tGet tSet serviceId (Some creds)) = cache h
       \<and> (e = NoEndpointConfigured \<or> e = InvalidEndpointConfiguration
            \<or> (\<exists>e'. e = ObtainTokenFailed e'))"
proof -
  from assms have f: "fst (handleLoginAuth h tGet tSet serviceId creds) = Inl e"
    by (simp add: GetAuthToken_def)
  from handleLoginAuth_failure [OF f] fetchToken_errors [of "client h" creds e] assms(1)
  show ?thesis by (simp add: GetAuthToken_def)
qed

theorem GetAuthToken_LOGIN_failure_keeps_cache_witness:
  "AuthType \<lparr>AuthType = ''LOGIN'', CredentialsType.EndpointType = ''REST'', CredentialData = [],
        Token = None, TokenLocation = ''token'', TokenTtl = Some 20, ApiKey = '''',
        EndpointData = None\<rparr> = ''LOGIN''
   \<and> GetAuthToken
       \<lparr>client = \<lparr>json_Marshal = \<lambda>v. None, json_Unmarshal = \<lambda>s. None,
                   rangeOrder = \<lambda>m. m, http_NewRequest = \<lambda>m u. True,
                   client_Do = \<lambda>r. None\<rparr>,
        cache = TokenCache_Set NewTokenCache 1700000000 ''svc'' ''old'' (Some 20) 10,
        config = \<lparr>CacheEnabled = True, TokenRefreshBuffer = 10\<rparr>\<rparr>
       1700000015 1700000016 ''svc''
       (Some \<lparr>AuthType = ''LOGIN'', CredentialsType.EndpointType = ''REST'', CredentialData = [],
        Token = None, TokenLocation = ''token'', TokenTtl = Some 20, ApiKey = '''',
        EndpointData = None\<rparr>)
     = (Inl NoEndpointConfigured,
        TokenCache_Set NewTokenCache 1700000000 ''svc'' ''old'' (Some 20) 10)"
proof -
  let ?creds = "\<lparr>AuthType = ''LOGIN'', CredentialsType.EndpointType = ''REST'', CredentialData = [],
        Token = None, TokenLocation = ''token'', TokenTtl = Some 20, ApiKey = '''',
        EndpointData = None\<rparr>"
  let ?h = "\<lparr>client = \<lparr>json_Marshal = \<lambda>v. None, json_Unmarshal = \<lambda>s. None,
                   rangeOrder = \<lambda>m. m, http_NewRequest = \<lambda>m u. True,
                   client_Do = \<lambda>r. None\<rparr>,
        cache = TokenCache_Set NewTokenCache 1700000000 ''svc'' ''old'' (Some 20) 10,
        config = \<lparr>CacheEnabled = True, TokenRefreshBuffer = 10\<rparr>\<rparr>"
  have a: "AuthType ?creds = ''LOGIN''" by simp
  have f: "fst (GetAuthToken ?h 1700000015 1700000016 ''svc'' (Some ?creds)) = Inl NoEndpointConfigured"
    by (simp add: GetAuthToken_def handleLoginAuth_def fetchToken_def TokenCache_Get_def
        TokenCache_Set_def newCachedToken_def NewTokenCache_def word_sle_eq word_sless_alt)
  from GetAuthToken_LOGIN_failure_keeps_cache [OF a f] have
    "snd (GetAuthToken ?h 1700000015 1700000016 ''svc'' (Some ?creds)) = cache ?h" by simp
  with f a show ?thesis
    by (simp add: prod_eq_iff)
qed

end
